theory Spec2Isabelle
  imports Complex_Main "HOL-Library.Sublist" "HOL-Library.Word"
begin

section \<open>Values of the program\<close>

text \<open>
  A Python float is an IEEE 754 double: a finite double, given by the real number it
  stands for, or one of the three special values. The two zeros of IEEE are the one value
  \<open>Finite 0\<close> (both are falsy and both make a division raise).
\<close>

datatype pyfloat = Finite real | PInf | NInf | NaN

text \<open>
  Rounding to the nearest double, ties to even. A double is an integer multiple of a power
  of two: of \<open>2 ^ (e - 52)\<close> for a number between \<open>2 ^ e\<close> and \<open>2 ^ (e + 1)\<close>, and of
  \<open>2 ^ - 1074\<close> below the normal range. A rounded magnitude of \<open>2 ^ 1024\<close> or more is
  an infinity.
\<close>

definition pow2 :: "int \<Rightarrow> real" where
  "pow2 k = (if 0 \<le> k then 2 ^ nat k else 1 / 2 ^ nat (- k))"

definition round_half_even :: "real \<Rightarrow> int" where
  "round_half_even y =
     (let f = \<lfloor>y\<rfloor> in
      if y - of_int f < 1 / 2 then f
      else if 1 / 2 < y - of_int f then f + 1
      else if even f then f else f + 1)"

definition quantum :: "real \<Rightarrow> real" where
  "quantum x = pow2 (max (\<lfloor>log 2 \<bar>x\<bar>\<rfloor> - 52) (- 1074))"

definition round_double :: "real \<Rightarrow> pyfloat" where
  "round_double x =
     (if x = 0 then Finite 0
      else let y = of_int (round_half_even (x / quantum x)) * quantum x
           in if 2 ^ 1024 \<le> \<bar>y\<bar> then (if 0 < x then PInf else NInf) else Finite y)"

text \<open>A value as a double: a finite number is rounded, so a double is left as it is.\<close>

definition as_double :: "pyfloat \<Rightarrow> pyfloat" where
  "as_double v = (case v of Finite x \<Rightarrow> round_double x | _ \<Rightarrow> v)"

text \<open>Python exception classes that the modelled code can meet.\<close>

datatype error = ValueError | TypeError | OverflowError | ZeroDivisionError
  | IndexError | AttributeError

text \<open>Truth value of a float: \<open>bool(x)\<close> is \<open>x != 0.0\<close>, so NaN and the infinities are truthy.\<close>

definition truthy :: "pyfloat \<Rightarrow> bool" where
  "truthy v = (v \<noteq> Finite 0)"

definition is_neg :: "pyfloat \<Rightarrow> bool" where
  "is_neg v = (case v of Finite a \<Rightarrow> a < 0 | NInf \<Rightarrow> True | _ \<Rightarrow> False)"

definition inf_signed :: "bool \<Rightarrow> pyfloat" where
  "inf_signed neg = (if neg then NInf else PInf)"

text \<open>Float multiplication \<open>x * y\<close>: the exact product of two doubles, rounded.\<close>

fun fmul :: "pyfloat \<Rightarrow> pyfloat \<Rightarrow> pyfloat" where
  "fmul (Finite a) (Finite b) = round_double (a * b)"
| "fmul NaN y = NaN"
| "fmul x NaN = NaN"
| "fmul x y = (if x = Finite 0 \<or> y = Finite 0 then NaN
               else inf_signed (is_neg x \<noteq> is_neg y))"

text \<open>
  The quotient of a float division whose divisor is not zero: the exact quotient of two
  doubles, rounded.
\<close>

fun fdiv :: "pyfloat \<Rightarrow> pyfloat \<Rightarrow> pyfloat" where
  "fdiv (Finite a) (Finite b) = round_double (a / b)"
| "fdiv NaN y = NaN"
| "fdiv x NaN = NaN"
| "fdiv (Finite a) y = Finite 0"
| "fdiv x (Finite b) = inf_signed (is_neg x \<noteq> (b < 0))"
| "fdiv x y = NaN"

text \<open>True division \<open>x / y\<close>: a zero divisor raises, whatever the dividend.\<close>

definition py_truediv :: "pyfloat \<Rightarrow> pyfloat \<Rightarrow> error + pyfloat" where
  "py_truediv x y = (if y = Finite 0 then Inl ZeroDivisionError else Inr (fdiv x y))"

text \<open>Float comparison \<open>x == y\<close> of two distinct objects: NaN equals nothing.\<close>

definition feq :: "pyfloat \<Rightarrow> pyfloat \<Rightarrow> bool" where
  "feq x y = (x = y \<and> x \<noteq> NaN)"

text \<open>
  A table (a data frame) maps a column name to the cells of the column, first row first.
  The type \<open>'c\<close> of a cell is left open; what the library does with a cell is a parameter
  of the functions below:
  \<^item> \<open>to_float c\<close> is the number the builtin \<open>float(c)\<close> reads from the cell, or the
    exception it raises; \<open>float\<close> returns that number as a double (\<open>as_double\<close>);
  \<^item> \<open>ceq c d\<close> is the comparison \<open>c == d\<close> of two cells;
  \<^item> \<open>to_datetime c\<close> is the timestamp the date parser reads from \<open>c\<close>
    (\<open>None\<close> for a missing value), or the exception it raises.
\<close>

type_synonym 'c table = "string \<rightharpoonup> 'c list"

text \<open>\<open>df[col].iloc[0] if col in df.columns and not df[col].empty else None\<close>\<close>

definition first_cell :: "'c table \<Rightarrow> string \<Rightarrow> 'c option" where
  "first_cell df col = (case df col of None \<Rightarrow> None | Some [] \<Rightarrow> None | Some (c # cs) \<Rightarrow> Some c)"

section \<open>The metadata extractor\<close>

text \<open>
  \<open>get_value(df, column, default)\<close>: the \<open>try\<close> block catches \<open>ValueError\<close> and
  \<open>TypeError\<close>; any other exception of \<open>float\<close> leaves the function.
\<close>

definition get_value :: "('c \<Rightarrow> error + pyfloat) \<Rightarrow> 'c table \<Rightarrow> string \<Rightarrow> pyfloat \<Rightarrow> error + pyfloat" where
  "get_value to_float df column dflt =
     (case df column of
        None \<Rightarrow> Inr dflt
      | Some [] \<Rightarrow> Inr dflt
      | Some (c # cs) \<Rightarrow>
          (case to_float c of
             Inr v \<Rightarrow> (let value = as_double v in Inr (if truthy value then value else dflt))
           | Inl e \<Rightarrow> if e = ValueError \<or> e = TypeError then Inr dflt else Inl e))"

section \<open>Errors as values\<close>

definition bind_err :: "error + 'a \<Rightarrow> ('a \<Rightarrow> error + 'b) \<Rightarrow> error + 'b" where
  "bind_err m f = (case m of Inl e \<Rightarrow> Inl e | Inr x \<Rightarrow> f x)"

section \<open>The file name of a source\<close>

text \<open>\<open>os.path.basename\<close> (POSIX): what follows the last slash.\<close>

definition basename :: "string \<Rightarrow> string" where
  "basename p = rev (takeWhile (\<lambda>c. c \<noteq> CHR ''/'') (rev p))"

text \<open>
  \<open>str.split(sep)\<close> for a separator that is not empty: the string is scanned from the
  left, and every occurrence of the separator met closes a segment. \<open>acc\<close> holds the
  characters of the open segment, last first.
\<close>

function split_go :: "string \<Rightarrow> string \<Rightarrow> string \<Rightarrow> string list" where
  "split_go sep acc [] = [rev acc]"
| "split_go sep acc (c # cs) =
     (if sep \<noteq> [] \<and> prefix sep (c # cs)
      then rev acc # split_go sep [] (drop (length sep - 1) cs)
      else split_go sep (c # acc) cs)"
  by pat_completeness auto
termination
  by (relation "measure (\<lambda>(sep, acc, s). length s)") auto

definition split :: "string \<Rightarrow> string \<Rightarrow> string list" where
  "split sep s = split_go sep [] s"

text \<open>\<open>filename = os.path.basename(tsv); filename = filename.split("zip:")[-1]\<close>\<close>

definition filename_of :: "string \<Rightarrow> string" where
  "filename_of tsv = last (split ''zip:'' (basename tsv))"

section \<open>One record per source\<close>

text \<open>
  The dictionary built for a source. The key \<open>Objects/ml\<close> is the field
  \<open>objects_per_ml\<close>. The date is a raw cell in the collected list and a string in the
  returned frame, hence the second type parameter.
\<close>

record ('c, 'd) sample_record =
  filename :: string
  objects_per_ml :: pyfloat
  date :: "'d option"
  lat :: "'c option"
  lon :: "'c option"

text \<open>
  The number of objects of a source is a count of rows, an index-sized integer: a 64-bit
  word here. In a division by a float it is converted to the nearest double, which cannot
  overflow.
\<close>

definition count_to_float :: "64 word \<Rightarrow> pyfloat" where
  "count_to_float n = round_double (of_nat (unat n))"

text \<open>
  The body of the loop over the sources, after the table has been loaded. The default
  \<open>1\<close> and the factor \<open>1000\<close> are integers that are doubles.
\<close>

definition tsv_record ::
  "('c \<Rightarrow> error + pyfloat) \<Rightarrow> string \<Rightarrow> 'c table \<Rightarrow> 64 word \<Rightarrow> error + ('c, 'c) sample_record" where
  "tsv_record to_float tsv df_temp nb_objects =
     bind_err (get_value to_float df_temp ''acq_imaged_volume'' (Finite 1)) (\<lambda>acq_imaged_volume.
     bind_err (get_value to_float df_temp ''sample_dilution_factor'' (Finite 1)) (\<lambda>sample_dilution_factor.
     bind_err (get_value to_float df_temp ''sample_concentrated_sample_volume'' (Finite 1)) (\<lambda>sample_concentrated_sample_volume.
     bind_err (get_value to_float df_temp ''sample_total_volume'' (Finite 1)) (\<lambda>sample_total_volume.
     bind_err (py_truediv (count_to_float nb_objects) acq_imaged_volume) (\<lambda>q1.
     bind_err (py_truediv sample_concentrated_sample_volume (fmul sample_total_volume (Finite 1000))) (\<lambda>q2.
       Inr \<lparr> filename = filename_of tsv,
             objects_per_ml = fmul (fmul q1 sample_dilution_factor) q2,
             date = first_cell df_temp ''acq_local_datetime'',
             lat = first_cell df_temp ''object_lat'',
             lon = first_cell df_temp ''object_lon'' \<rparr>))))))"

text \<open>
  The loop. \<open>load_dataframe\<close> is the loader of the \<open>utils\<close> module, a parameter here: it
  yields the table, the number of objects and the metadata of a source, or raises.
\<close>

fun collect ::
  "('c \<Rightarrow> error + pyfloat) \<Rightarrow> (string \<Rightarrow> error + 'c table \<times> 64 word \<times> 'm) \<Rightarrow> string list
     \<Rightarrow> error + ('c, 'c) sample_record list" where
  "collect to_float load_dataframe [] = Inr []"
| "collect to_float load_dataframe (tsv # tsvs) =
     bind_err (load_dataframe tsv) (\<lambda>(df_temp, nb_objects, metadatas).
     bind_err (tsv_record to_float tsv df_temp nb_objects) (\<lambda>data.
     bind_err (collect to_float load_dataframe tsvs) (\<lambda>data_list.
       Inr (data # data_list))))"

section \<open>Deleting duplicates\<close>

text \<open>\<open>a == b\<close> on two optional cells: \<open>None\<close> equals \<open>None\<close> only.\<close>

definition opt_eq :: "('c \<Rightarrow> 'c \<Rightarrow> bool) \<Rightarrow> 'c option \<Rightarrow> 'c option \<Rightarrow> bool" where
  "opt_eq ceq a b = (case (a, b) of (None, None) \<Rightarrow> True | (Some x, Some y) \<Rightarrow> ceq x y | _ \<Rightarrow> False)"

text \<open>\<open>a == b\<close> on two of the dictionaries: the same five keys, equal values.\<close>

definition dict_eq ::
  "('c \<Rightarrow> 'c \<Rightarrow> bool) \<Rightarrow> ('c, 'c) sample_record \<Rightarrow> ('c, 'c) sample_record \<Rightarrow> bool" where
  "dict_eq ceq a b =
     (filename a = filename b \<and> feq (objects_per_ml a) (objects_per_ml b)
      \<and> opt_eq ceq (date a) (date b) \<and> opt_eq ceq (lat a) (lat b) \<and> opt_eq ceq (lon a) (lon b))"

text \<open>\<open>i in xs\<close>: some item of the list equals \<open>i\<close>.\<close>

definition py_in ::
  "('c \<Rightarrow> 'c \<Rightarrow> bool) \<Rightarrow> ('c, 'c) sample_record \<Rightarrow> ('c, 'c) sample_record list \<Rightarrow> bool" where
  "py_in ceq i xs = list_ex (\<lambda>item. dict_eq ceq item i) xs"

text \<open>\<open>[i for n, i in enumerate(data_list) if i not in data_list[n + 1:]]\<close>\<close>

definition delete_duplicates ::
  "('c \<Rightarrow> 'c \<Rightarrow> bool) \<Rightarrow> ('c, 'c) sample_record list \<Rightarrow> ('c, 'c) sample_record list" where
  "delete_duplicates ceq data_list =
     map snd (filter (\<lambda>(n, i). \<not> py_in ceq i (drop (n + 1) data_list)) (enumerate 0 data_list))"

section \<open>The date column\<close>

text \<open>
  A parsed timestamp. \<open>NaT\<close>, the missing timestamp, is \<open>None\<close> in a
  \<open>timestamp option\<close>.
\<close>

record timestamp =
  year :: nat
  month :: nat
  day :: nat
  hour :: nat
  minute :: nat
  second :: nat

definition digit_char :: "nat \<Rightarrow> char" where
  "digit_char d = ''0123456789'' ! (d mod 10)"

fun show_nat :: "nat \<Rightarrow> string" where
  "show_nat n = (if n < 10 then [digit_char n] else show_nat (n div 10) @ [digit_char (n mod 10)])"

declare show_nat.simps [simp del]

definition zfill :: "nat \<Rightarrow> string \<Rightarrow> string" where
  "zfill w s = replicate (w - length s) (CHR ''0'') @ s"

text \<open>\<open>strftime('%Y-%m-%d')\<close> of a timestamp.\<close>

definition strftime_ymd :: "timestamp \<Rightarrow> string" where
  "strftime_ymd t =
     zfill 4 (show_nat (year t)) @ ''-'' @ zfill 2 (show_nat (month t)) @ ''-'' @ zfill 2 (show_nat (day t))"

text \<open>
  \<open>pd.to_datetime(df['date'])\<close> with the default \<open>errors='raise'\<close>: \<open>None\<close> becomes
  \<open>NaT\<close>, every other cell goes through the parser, and the first cell the parser
  rejects raises for the whole column. The parser is taken cell by cell.
\<close>

fun to_datetime_column ::
  "('c \<Rightarrow> error + timestamp option) \<Rightarrow> 'c option list \<Rightarrow> error + timestamp option list" where
  "to_datetime_column to_datetime [] = Inr []"
| "to_datetime_column to_datetime (d # ds) =
     bind_err (case d of None \<Rightarrow> Inr None | Some c \<Rightarrow> to_datetime c) (\<lambda>t.
     bind_err (to_datetime_column to_datetime ds) (\<lambda>ts.
       Inr (t # ts)))"

text \<open>The row of the returned frame: the date replaced, the other columns kept.\<close>

definition with_date :: "('c, 'c) sample_record \<Rightarrow> timestamp option \<Rightarrow> ('c, string) sample_record" where
  "with_date r t =
     \<lparr> filename = filename r, objects_per_ml = objects_per_ml r,
       date = map_option strftime_ymd t, lat = lat r, lon = lon r \<rparr>"

section \<open>The assembler\<close>

text \<open>
  \<open>create_df(path)\<close>. \<open>find_tsv_files\<close> and \<open>load_dataframe\<close> are the two functions of
  the \<open>utils\<close> module, parameters here.
\<close>

definition create_df ::
  "('c \<Rightarrow> error + pyfloat) \<Rightarrow> ('c \<Rightarrow> 'c \<Rightarrow> bool) \<Rightarrow> ('c \<Rightarrow> error + timestamp option)
     \<Rightarrow> (string \<Rightarrow> string list) \<Rightarrow> (string \<Rightarrow> error + 'c table \<times> 64 word \<times> 'm)
     \<Rightarrow> string \<Rightarrow> error + ('c, string) sample_record list" where
  "create_df to_float ceq to_datetime find_tsv_files load_dataframe path =
     bind_err (collect to_float load_dataframe (find_tsv_files path)) (\<lambda>collected.
       let data_list = delete_duplicates ceq collected in
       bind_err (to_datetime_column to_datetime (map date data_list)) (\<lambda>stamps.
         Inr (map2 with_date data_list stamps)))"

section \<open>The map and the selection callback\<close>

text \<open>
  What the callback reads and writes of the figure: the custom data of every point (one
  list per row, holding the file name), and the size and opacity of every marker.
\<close>

record figure =
  fig_customdata :: "string list list"
  marker_size :: "nat list"
  marker_opacity :: "real list"

definition create_world_map_fig :: "('c, string) sample_record list \<Rightarrow> figure" where
  "create_world_map_fig d =
     \<lparr> fig_customdata = map (\<lambda>r. [filename r]) d,
       marker_size = replicate (length d) 10,
       marker_opacity = replicate (length d) (1 / 2) \<rparr>"

text \<open>
  The object. The controller is absent (\<open>None\<close>, as in the module's own example run) or
  present; a present controller is modelled by the list of the messages published
  through it so far, oldest first, each a topic and a payload.
\<close>

record 'c world_map =
  controller :: "(string \<times> string) list option"
  publisher :: string
  df :: "('c, string) sample_record list"
  fig :: figure

text \<open>The fields set by \<open>__init__\<close> and \<open>world_map\<close> once \<open>create_df\<close> has returned \<open>d\<close>.\<close>

definition new_world_map :: "(string \<times> string) list option \<Rightarrow> ('c, string) sample_record list \<Rightarrow> 'c world_map" where
  "new_world_map ctrl d =
     \<lparr> controller = ctrl, publisher = ''visualization/dataset'', df = d,
       fig = create_world_map_fig d \<rparr>"

text \<open>One entry of \<open>clickData['points']\<close>.\<close>

record point =
  pointNumber :: int
  customdata :: "string list"

datatype callback_result = No_update | Figure figure | Raised error

text \<open>
  \<open>select_point(clickData)\<close>: the result of the callback and the object after it.
  \<open>clickData\<close> is \<open>None\<close> or the list under its key \<open>points\<close>.
\<close>

definition select_point :: "'c world_map \<Rightarrow> point list option \<Rightarrow> callback_result \<times> 'c world_map" where
  "select_point self clickData =
     (case clickData of
        None \<Rightarrow> (No_update, self)
      | Some [] \<Rightarrow> (Raised IndexError, self)
      | Some (selected_point # ps) \<Rightarrow>
          let opacity = map (\<lambda>i. if int i = pointNumber selected_point then 1 else 1 / 2)
                          [0 ..< length (df self)];
              self1 = self \<lparr> fig := (fig self) \<lparr> marker_opacity := opacity \<rparr> \<rparr>
          in (case customdata selected_point of
                [] \<Rightarrow> (Raised IndexError, self1)
              | dataset_name # ns \<Rightarrow>
                  (case controller self1 of
                     None \<Rightarrow> (Raised AttributeError, self1)
                   | Some published \<Rightarrow>
                       let self2 = self1 \<lparr> controller := Some (published @ [(publisher self1, dataset_name)]) \<rparr>
                       in (Figure (fig self2), self2))))"

text \<open>
  The click data the front end delivers for point \<open>i\<close> of the figure: the number of the
  point and its custom data.
\<close>

definition click_on :: "figure \<Rightarrow> nat \<Rightarrow> point list option" where
  "click_on f i = Some [\<lparr> pointNumber = int i, customdata = fig_customdata f ! i \<rparr>]"

text \<open>
  The objects the program can be in: the one built at start-up, for any controller and
  any frame, and every object a call of the callback leaves behind.
\<close>

inductive reachable :: "'c world_map \<Rightarrow> bool" where
  start: "reachable (new_world_map ctrl d)"
| step: "reachable self \<Longrightarrow> reachable (snd (select_point self clickData))"

section \<open>A date parser for the examples\<close>

text \<open>
  The date parser is a parameter of the assembler. The examples below use this one, for
  text cells: it reads the two plain ISO 8601 forms \<open>YYYY-MM-DD\<close> and
  \<open>YYYY-MM-DDTHH:MM:SS\<close> (the \<open>T\<close> may be a space) within the years a nanosecond
  timestamp can hold; it reads the empty text and the spellings of a missing value as the
  missing timestamp \<open>NaT\<close>, as the library does, without an exception; and it raises
  \<open>ValueError\<close> on every other text.
\<close>

definition nat_strings :: "string list" where
  "nat_strings = [''NaT'', ''nat'', ''NAT'', ''nan'', ''NaN'', ''NAN'']"

definition digit_val :: "char \<Rightarrow> nat option" where
  "digit_val c = map_of (zip ''0123456789'' [0, 1, 2, 3, 4, 5, 6, 7, 8, 9]) c"

fun read_digits :: "nat \<Rightarrow> string \<Rightarrow> nat option" where
  "read_digits n [] = Some n"
| "read_digits n (c # cs) = (case digit_val c of None \<Rightarrow> None | Some d \<Rightarrow> read_digits (10 * n + d) cs)"

definition read_nat :: "string \<Rightarrow> nat option" where
  "read_nat s = (if s = [] then None else read_digits 0 s)"

definition days_in_month :: "nat \<Rightarrow> nat \<Rightarrow> nat" where
  "days_in_month y m =
     (if m = 4 \<or> m = 6 \<or> m = 9 \<or> m = 11 then 30
      else if m = 2 then (if y mod 4 = 0 \<and> (y mod 100 \<noteq> 0 \<or> y mod 400 = 0) then 29 else 28)
      else 31)"

definition iso_fields :: "string \<Rightarrow> (nat option \<times> nat option \<times> nat option \<times> nat option \<times> nat option \<times> nat option) option" where
  "iso_fields s =
     (if length s = 10 \<and> s ! 4 = CHR ''-'' \<and> s ! 7 = CHR ''-''
      then Some (read_nat (take 4 s), read_nat (take 2 (drop 5 s)), read_nat (take 2 (drop 8 s)),
                 Some 0, Some 0, Some 0)
      else if length s = 19 \<and> s ! 4 = CHR ''-'' \<and> s ! 7 = CHR ''-''
              \<and> (s ! 10 = CHR ''T'' \<or> s ! 10 = CHR '' '') \<and> s ! 13 = CHR '':'' \<and> s ! 16 = CHR '':''
      then Some (read_nat (take 4 s), read_nat (take 2 (drop 5 s)), read_nat (take 2 (drop 8 s)),
                 read_nat (take 2 (drop 11 s)), read_nat (take 2 (drop 14 s)), read_nat (take 2 (drop 17 s)))
      else None)"

definition iso_to_datetime :: "string \<Rightarrow> error + timestamp option" where
  "iso_to_datetime s =
     (if s = [] \<or> s \<in> set nat_strings then Inr None
      else case iso_fields s of
        Some (Some y, Some m, Some d, Some h, Some mi, Some se) \<Rightarrow>
          if 1678 \<le> y \<and> y \<le> 2261 \<and> 1 \<le> m \<and> m \<le> 12 \<and> 1 \<le> d \<and> d \<le> days_in_month y m
             \<and> h < 24 \<and> mi < 60 \<and> se < 60
          then Inr (Some \<lparr> year = y, month = m, day = d, hour = h, minute = mi, second = se \<rparr>)
          else Inl ValueError
      | _ \<Rightarrow> Inl ValueError)"

section \<open>Example tables\<close>

text \<open>
  Tables of numeric cells, for which \<open>float\<close> is the identity (\<open>Inr\<close>). The first holds
  the four volumes of the worked example; the second holds zeros; the third holds a
  dilution factor of \<open>2 ^ 1023\<close> and a concentrated volume of 500.
\<close>

definition sample_table :: "pyfloat table" where
  "sample_table = [''acq_imaged_volume'' \<mapsto> [Finite 10], ''sample_dilution_factor'' \<mapsto> [Finite 2],
     ''sample_concentrated_sample_volume'' \<mapsto> [Finite 5], ''sample_total_volume'' \<mapsto> [Finite 25]]"

definition zero_table :: "pyfloat table" where
  "zero_table = [''acq_imaged_volume'' \<mapsto> [Finite 0], ''sample_total_volume'' \<mapsto> [Finite 0]]"

definition steep_table :: "pyfloat table" where
  "steep_table = [''sample_dilution_factor'' \<mapsto> [Finite (2 ^ 1023)],
     ''sample_concentrated_sample_volume'' \<mapsto> [Finite 500]]"

text \<open>
  Tables of text cells that hold a timestamp only, so that the four volumes take their
  default and the concentration of 100 objects is the double 0.1. \<open>float\<close> raises
  \<open>ValueError\<close> on each of these cells (\<open>no_number\<close>); two texts are equal when they are
  the same text. Two archives hold a file of the same name.
\<close>

definition no_number :: "string \<Rightarrow> error + pyfloat" where
  "no_number c = Inl ValueError"

definition morning_table :: "string table" where
  "morning_table = [''acq_local_datetime'' \<mapsto> [''2023-07-04T10:15:00'']]"

definition evening_table :: "string table" where
  "evening_table = [''acq_local_datetime'' \<mapsto> [''2023-07-04T18:30:00'']]"

definition undated_table :: "string table" where
  "undated_table = [''acq_local_datetime'' \<mapsto> [''not a date'']]"

definition blank_table :: "string table" where
  "blank_table = [''acq_local_datetime'' \<mapsto> ['''']]"

definition two_archives :: "string \<Rightarrow> string list" where
  "two_archives path = [path @ ''a.zip:sample.tsv'', path @ ''b.zip:sample.tsv'']"

definition twin_loader :: "string \<Rightarrow> error + string table \<times> 64 word \<times> unit" where
  "twin_loader tsv =
     Inr (if tsv = ''../data/export/a.zip:sample.tsv'' then morning_table else evening_table, 100, ())"

definition blank_loader :: "string \<Rightarrow> error + string table \<times> 64 word \<times> unit" where
  "blank_loader tsv =
     Inr (if tsv = ''../data/export/a.zip:sample.tsv'' then morning_table else blank_table, 100, ())"

definition bad_loader :: "string \<Rightarrow> error + string table \<times> 64 word \<times> unit" where
  "bad_loader tsv =
     Inr (if tsv = ''../data/export/a.zip:sample.tsv'' then morning_table else undated_table, 100, ())"

definition raw_row :: "string \<Rightarrow> (string, string) sample_record" where
  "raw_row stamp = \<lparr> filename = ''sample.tsv'', objects_per_ml = round_double (1 / 10), date = Some stamp,
     lat = None, lon = None \<rparr>"

definition denser_row :: "string \<Rightarrow> (string, string) sample_record" where
  "denser_row stamp = (raw_row stamp) \<lparr> objects_per_ml := Finite (1 / 4) \<rparr>"

definition final_row :: "(string, string) sample_record" where
  "final_row = \<lparr> filename = ''sample.tsv'', objects_per_ml = round_double (1 / 10), date = Some ''2023-07-04'',
     lat = None, lon = None \<rparr>"

definition blank_final_row :: "(string, string) sample_record" where
  "blank_final_row = \<lparr> filename = ''sample.tsv'', objects_per_ml = round_double (1 / 10), date = None,
     lat = None, lon = None \<rparr>"

definition other_row :: "(string, string) sample_record" where
  "other_row = \<lparr> filename = ''other.tsv'', objects_per_ml = Finite (1 / 4), date = None,
     lat = Some ''48.7'', lon = Some ''-3.9'' \<rparr>"

section \<open>Rounding to a double\<close>

lemma pow2_powr: "pow2 k = 2 powr (of_int k)"
proof (cases "0 \<le> k")
  case True
  then have "2 powr (of_int k) = (2::real) powr (real (nat k))" by simp
  also have "\<dots> = 2 ^ nat k" by (simp add: powr_realpow)
  finally show ?thesis using True by (simp add: pow2_def)
next
  case False
  then have "(2::real) powr (of_int k) = 2 powr (- real (nat (- k)))" by simp
  also have "\<dots> = 1 / 2 powr (real (nat (- k)))" by (simp add: powr_minus_divide)
  also have "\<dots> = 1 / 2 ^ nat (- k)" by (simp add: powr_realpow)
  finally show ?thesis using False by (simp add: pow2_def)
qed

lemma pow2_pos: "0 < pow2 k"
  by (simp add: pow2_powr)

lemma pow2_mono: "a \<le> b \<Longrightarrow> pow2 a \<le> pow2 b"
  by (simp add: pow2_powr)

lemma pow2_floor_log_le: "x \<noteq> 0 \<Longrightarrow> pow2 \<lfloor>log 2 \<bar>x\<bar>\<rfloor> \<le> \<bar>x\<bar>"
proof -
  assume x: "x \<noteq> 0"
  have "of_int \<lfloor>log 2 \<bar>x\<bar>\<rfloor> \<le> log 2 \<bar>x\<bar>" by simp
  then have "2 powr (of_int \<lfloor>log 2 \<bar>x\<bar>\<rfloor>) \<le> 2 powr (log 2 \<bar>x\<bar>)" by simp
  also have "\<dots> = \<bar>x\<bar>" using x by simp
  finally show ?thesis by (simp add: pow2_powr)
qed

lemma floor_log_eq:
  assumes "pow2 e \<le> \<bar>x\<bar>" "\<bar>x\<bar> < pow2 (e + 1)"
  shows "\<lfloor>log 2 \<bar>x\<bar>\<rfloor> = e"
proof -
  have pos: "0 < \<bar>x\<bar>" using assms(1) pow2_pos[of e] by linarith
  have "of_int e \<le> log 2 \<bar>x\<bar>"
    using assms(1) pos by (simp add: pow2_powr le_log_iff)
  moreover have "log 2 \<bar>x\<bar> < of_int e + 1"
    using assms(2) pos by (simp add: pow2_powr log_less_iff)
  ultimately show ?thesis by linarith
qed

lemma round_half_even_cases:
  "round_half_even y = \<lfloor>y\<rfloor>
   \<or> (round_half_even y = \<lfloor>y\<rfloor> + 1 \<and> 1 / 2 \<le> y - of_int \<lfloor>y\<rfloor>)"
  by (auto simp: round_half_even_def Let_def)

lemma round_half_even_nonzero: "1 \<le> \<bar>y\<bar> \<Longrightarrow> round_half_even y \<noteq> 0"
proof -
  assume a: "1 \<le> \<bar>y\<bar>"
  show ?thesis
  proof (cases "0 \<le> y")
    case True
    with a have "1 \<le> y" by simp
    then have "1 \<le> \<lfloor>y\<rfloor>" by linarith
    then show ?thesis using round_half_even_cases[of y] by linarith
  next
    case False
    with a have y: "y \<le> - 1" by simp
    then have f: "\<lfloor>y\<rfloor> \<le> - 1" by linarith
    from round_half_even_cases[of y] show ?thesis
    proof
      assume "round_half_even y = \<lfloor>y\<rfloor>"
      with f show ?thesis by linarith
    next
      assume h: "round_half_even y = \<lfloor>y\<rfloor> + 1 \<and> 1 / 2 \<le> y - of_int \<lfloor>y\<rfloor>"
      then have "of_int \<lfloor>y\<rfloor> \<le> y - 1 / 2" by linarith
      with y have "real_of_int \<lfloor>y\<rfloor> < - 1" by linarith
      then have "\<lfloor>y\<rfloor> < - 1" by linarith
      with h show ?thesis by linarith
    qed
  qed
qed

lemma quantum_pos: "0 < quantum x"
  by (simp add: quantum_def pow2_pos)

lemma quantum_ge: "pow2 (- 1074) \<le> quantum x"
  unfolding quantum_def by (rule pow2_mono) simp

lemma quantum_le:
  assumes "pow2 (- 1074) \<le> \<bar>x\<bar>"
  shows "quantum x \<le> \<bar>x\<bar>"
proof -
  have x: "x \<noteq> 0" using assms pow2_pos[of "- 1074"] by auto
  show ?thesis
  proof (cases "\<lfloor>log 2 \<bar>x\<bar>\<rfloor> - 52 \<le> - 1074")
    case True
    then have "quantum x = pow2 (- 1074)" by (simp add: quantum_def max_def)
    with assms show ?thesis by simp
  next
    case False
    then have "quantum x = pow2 (\<lfloor>log 2 \<bar>x\<bar>\<rfloor> - 52)" by (simp add: quantum_def max_def)
    also have "\<dots> \<le> pow2 \<lfloor>log 2 \<bar>x\<bar>\<rfloor>" by (rule pow2_mono) simp
    also have "\<dots> \<le> \<bar>x\<bar>" by (rule pow2_floor_log_le[OF x])
    finally show ?thesis .
  qed
qed

lemma round_double_not_NaN: "round_double x \<noteq> NaN"
  by (simp add: round_double_def Let_def)

lemma round_double_nonzero:
  assumes "pow2 (- 1074) \<le> \<bar>x\<bar>"
  shows "round_double x \<noteq> Finite 0"
proof -
  have x: "x \<noteq> 0" using assms pow2_pos[of "- 1074"] by auto
  have "1 \<le> \<bar>x\<bar> / quantum x" using quantum_le[OF assms] quantum_pos[of x] by simp
  then have "1 \<le> \<bar>x / quantum x\<bar>" using quantum_pos[of x] by simp
  then have "round_half_even (x / quantum x) \<noteq> 0" by (rule round_half_even_nonzero)
  then have "of_int (round_half_even (x / quantum x)) * quantum x \<noteq> 0"
    using quantum_pos[of x] by simp
  then show ?thesis using x by (simp add: round_double_def Let_def)
qed

lemma round_double_least:
  assumes "round_double x = Finite y" "y \<noteq> 0"
  shows "pow2 (- 1074) \<le> \<bar>y\<bar>"
proof -
  have x: "x \<noteq> 0" using assms by (auto simp: round_double_def)
  let ?m = "round_half_even (x / quantum x)"
  have y: "y = of_int ?m * quantum x"
    using assms(1) x by (auto simp: round_double_def Let_def split: if_splits)
  with assms(2) have "?m \<noteq> 0" by auto
  then have "1 \<le> \<bar>?m\<bar>" by simp
  then have "(1::real) \<le> \<bar>of_int ?m\<bar>" by linarith
  then have "quantum x \<le> \<bar>of_int ?m\<bar> * quantum x"
    using quantum_pos[of x] by simp
  also have "\<dots> = \<bar>y\<bar>" using y quantum_pos[of x] by (simp add: abs_mult)
  finally show ?thesis using quantum_ge[of x] by linarith
qed

lemma round_double_eval:
  assumes "pow2 e \<le> \<bar>x\<bar>" "\<bar>x\<bar> < pow2 (e + 1)" "- 1022 \<le> e"
    and "\<bar>of_int (round_half_even (x / pow2 (e - 52))) * pow2 (e - 52)\<bar> < 2 ^ 1024"
  shows "round_double x = Finite (of_int (round_half_even (x / pow2 (e - 52))) * pow2 (e - 52))"
proof -
  have x: "x \<noteq> 0" using assms(1) pow2_pos[of e] by auto
  have "\<lfloor>log 2 \<bar>x\<bar>\<rfloor> = e" using assms(1,2) by (rule floor_log_eq)
  moreover have "max (e - 52) (- 1074) = e - 52" using assms(3) by simp
  ultimately have q: "quantum x = pow2 (e - 52)" by (simp only: quantum_def)
  show ?thesis using x assms(4) by (simp add: round_double_def q Let_def)
qed


lemma double_values:
  "round_double 1 = Finite 1" "round_double 2 = Finite 2" "round_double 5 = Finite 5"
  "round_double 10 = Finite 10" "round_double 20 = Finite 20" "round_double 25 = Finite 25"
  "round_double 100 = Finite 100" "round_double 500 = Finite 500" "round_double 1000 = Finite 1000"
  "round_double 25000 = Finite 25000" "round_double (1 / 2) = Finite (1 / 2)"
  "round_double (1 / 4) = Finite (1 / 4)" "round_double (25 / 2) = Finite (25 / 2)"
  using round_double_eval[of 0 1] round_double_eval[of 1 2] round_double_eval[of 2 5]
    round_double_eval[of 3 10] round_double_eval[of 4 20] round_double_eval[of 4 25]
    round_double_eval[of 6 100] round_double_eval[of 8 500] round_double_eval[of 9 1000]
    round_double_eval[of 14 25000] round_double_eval[of "- 1" "1 / 2"]
    round_double_eval[of "- 2" "1 / 4"] round_double_eval[of 3 "25 / 2"]
  by (simp_all add: pow2_def round_half_even_def)

lemma double_fractions:
  "round_double (1 / 5000) = Finite (7378697629483821 / 2 ^ 65)"
  "round_double (1 / 1000) = Finite (4611686018427388 / 2 ^ 62)"
  "round_double (4 / 1000) = Finite (4611686018427388 / 2 ^ 60)"
  "round_double (8 / 1000) = Finite (4611686018427388 / 2 ^ 59)"
  "round_double (1 / 10) = Finite (7205759403792794 / 2 ^ 56)"
  "round_double (20 * (7378697629483821 / 2 ^ 65)) = Finite (4611686018427388 / 2 ^ 60)"
  "round_double (100 * (4611686018427388 / 2 ^ 62)) = Finite (7205759403792794 / 2 ^ 56)"
  using round_double_eval[of "- 13" "1 / 5000"] round_double_eval[of "- 10" "1 / 1000"]
    round_double_eval[of "- 8" "4 / 1000"] round_double_eval[of "- 7" "8 / 1000"]
    round_double_eval[of "- 4" "1 / 10"]
    round_double_eval[of "- 8" "20 * (7378697629483821 / 2 ^ 65)"]
    round_double_eval[of "- 4" "100 * (4611686018427388 / 2 ^ 62)"]
  by (simp_all add: pow2_def round_half_even_def Let_def)

lemma double_overflow: "round_double (2 * 2 ^ 1023) = PInf"
  using floor_log_eq[of 1024 "2 * 2 ^ 1023"]
  by (simp add: round_double_def quantum_def pow2_def round_half_even_def Let_def)

lemma double_large: "round_double (2 ^ 1023) = Finite (2 ^ 1023)" "round_double (2 ^ 1022) = Finite (2 ^ 1022)"
  using round_double_eval[of 1023 "2 ^ 1023"] round_double_eval[of 1022 "2 ^ 1022"]
  by (simp_all add: pow2_def round_half_even_def Let_def)

section \<open>The extractor returns the default\<close>

lemma get_value_nonzero:
  "dflt \<noteq> Finite 0 \<Longrightarrow> get_value to_float tbl column dflt \<noteq> Inr (Finite 0)"
  by (auto simp: get_value_def truthy_def Let_def split: option.splits list.splits sum.splits)

lemma get_value_double:
  "get_value to_float tbl column dflt = Inr r \<Longrightarrow> r = dflt \<or> (\<exists>v. r = as_double v \<and> r \<noteq> Finite 0)"
  by (auto simp: get_value_def truthy_def Let_def split: option.splits list.splits sum.splits if_splits)

lemma as_double_least:
  assumes "as_double v = Finite y" "y \<noteq> 0"
  shows "pow2 (- 1074) \<le> \<bar>y\<bar>"
proof (cases v)
  case (Finite z)
  then have "round_double z = Finite y" using assms(1) by (simp add: as_double_def)
  then show ?thesis using assms(2) by (rule round_double_least)
qed (use assms in \<open>simp_all add: as_double_def\<close>)

lemma fmul_1000_nonzero:
  assumes "tv = Finite 1 \<or> (\<exists>v. tv = as_double v \<and> tv \<noteq> Finite 0)"
  shows "fmul tv (Finite 1000) \<noteq> Finite 0"
proof (cases tv)
  case (Finite y)
  have least: "pow2 (- 1074) \<le> \<bar>y\<bar>"
  proof -
    from assms show ?thesis
    proof
      assume "tv = Finite 1"
      then have "y = 1" using Finite by simp
      moreover have "pow2 (- 1074) \<le> pow2 0" by (rule pow2_mono) simp
      ultimately show ?thesis by (simp add: pow2_def)
    next
      assume "\<exists>v. tv = as_double v \<and> tv \<noteq> Finite 0"
      then obtain v where "as_double v = Finite y" "y \<noteq> 0" using Finite by auto
      then show ?thesis by (rule as_double_least)
    qed
  qed
  have "\<bar>y\<bar> \<le> \<bar>y * 1000\<bar>" by (simp add: abs_mult)
  with least have "pow2 (- 1074) \<le> \<bar>y * 1000\<bar>" by linarith
  then have "round_double (y * 1000) \<noteq> Finite 0" by (rule round_double_nonzero)
  then show ?thesis using Finite by simp
qed (simp_all add: inf_signed_def)

text \<open>
  Claim C3. If the column is not in the table, or has no row, or \<open>float\<close> of its first
  cell raises \<open>ValueError\<close> or \<open>TypeError\<close> (the value does not parse as a number), the
  extractor returns the default, and returns it normally: the result is \<open>Inr\<close>, no
  exception.
\<close>

theorem get_value_default:
  assumes "tbl column = None \<or> tbl column = Some []
           \<or> (\<exists>c cs. tbl column = Some (c # cs) \<and> (to_float c = Inl ValueError \<or> to_float c = Inl TypeError))"
  shows "get_value to_float tbl column dflt = Inr dflt"
  using assms by (auto simp: get_value_def)

theorem get_value_default_witness:
  "get_value (\<lambda>c. if c = ''12.5'' then Inr (Finite (25 / 2)) else Inl ValueError)
     (Map.empty :: string table) ''acq_imaged_volume'' (Finite 1) = Inr (Finite 1)
   \<and> get_value (\<lambda>c. if c = ''12.5'' then Inr (Finite (25 / 2)) else Inl ValueError)
     [''acq_imaged_volume'' \<mapsto> []] ''acq_imaged_volume'' (Finite 1) = Inr (Finite 1)
   \<and> get_value (\<lambda>c. if c = ''12.5'' then Inr (Finite (25 / 2)) else Inl ValueError)
     [''acq_imaged_volume'' \<mapsto> [''n/a'', ''12.5'']] ''acq_imaged_volume'' (Finite 1) = Inr (Finite 1)"
proof (intro conjI)
  let ?f = "\<lambda>c. if c = ''12.5'' then Inr (Finite (25 / 2)) else Inl ValueError"
  show "get_value ?f (Map.empty :: string table) ''acq_imaged_volume'' (Finite 1) = Inr (Finite 1)"
    by (rule get_value_default) simp
  show "get_value ?f [''acq_imaged_volume'' \<mapsto> []] ''acq_imaged_volume'' (Finite 1) = Inr (Finite 1)"
    by (rule get_value_default) simp
  show "get_value ?f [''acq_imaged_volume'' \<mapsto> [''n/a'', ''12.5'']] ''acq_imaged_volume'' (Finite 1) = Inr (Finite 1)"
    by (rule get_value_default) simp
qed

text \<open>
  Claim C4. If the first cell parses to zero, the extractor returns the default instead;
  and whatever the table, the extractor does not return zero when the default is not zero.
\<close>

theorem get_value_zero:
  "(tbl column = Some (c # cs) \<and> to_float c = Inr (Finite 0) \<longrightarrow> get_value to_float tbl column dflt = Inr dflt)
   \<and> (dflt \<noteq> Finite 0 \<longrightarrow> get_value to_float tbl column dflt \<noteq> Inr (Finite 0))"
  using get_value_nonzero[of dflt to_float tbl column]
  by (auto simp: get_value_def truthy_def as_double_def round_double_def)

theorem get_value_zero_witness:
  "get_value Inr [''sample_total_volume'' \<mapsto> [Finite 0]] ''sample_total_volume'' (Finite 1) = Inr (Finite 1)
   \<and> get_value Inr [''sample_total_volume'' \<mapsto> [Finite 0]] ''sample_total_volume'' (Finite 1) \<noteq> Inr (Finite 0)"
  using get_value_zero[of "[''sample_total_volume'' \<mapsto> [Finite 0]]" "''sample_total_volume''" "Finite 0" "[]" Inr "Finite 1"]
  by simp

section \<open>The concentration\<close>

lemma py_truediv_nonzero: "y \<noteq> Finite 0 \<Longrightarrow> py_truediv x y = Inr (fdiv x y)"
  by (simp add: py_truediv_def)

lemma tsv_record_unfold:
  assumes "get_value to_float tbl ''acq_imaged_volume'' (Finite 1) = Inr iv"
    and "get_value to_float tbl ''sample_dilution_factor'' (Finite 1) = Inr dil"
    and "get_value to_float tbl ''sample_concentrated_sample_volume'' (Finite 1) = Inr cv"
    and "get_value to_float tbl ''sample_total_volume'' (Finite 1) = Inr tv"
  shows "tsv_record to_float tsv tbl n =
     Inr \<lparr> filename = filename_of tsv,
           objects_per_ml = fmul (fmul (fdiv (count_to_float n) iv) dil) (fdiv cv (fmul tv (Finite 1000))),
           date = first_cell tbl ''acq_local_datetime'',
           lat = first_cell tbl ''object_lat'',
           lon = first_cell tbl ''object_lon'' \<rparr>"
proof -
  have iv: "iv \<noteq> Finite 0" using get_value_nonzero[of "Finite 1" to_float tbl "''acq_imaged_volume''"] assms(1) by auto
  have tv: "fmul tv (Finite 1000) \<noteq> Finite 0"
    using get_value_double[OF assms(4)] by (rule fmul_1000_nonzero)
  show ?thesis
    by (simp add: tsv_record_def bind_err_def assms py_truediv_nonzero[OF iv] py_truediv_nonzero[OF tv])
qed

lemma tsv_record_error:
  assumes "tsv_record to_float tsv tbl n = Inl e"
  shows "get_value to_float tbl ''acq_imaged_volume'' (Finite 1) = Inl e
       \<or> get_value to_float tbl ''sample_dilution_factor'' (Finite 1) = Inl e
       \<or> get_value to_float tbl ''sample_concentrated_sample_volume'' (Finite 1) = Inl e
       \<or> get_value to_float tbl ''sample_total_volume'' (Finite 1) = Inl e"
proof (rule ccontr)
  assume a: "\<not> ?thesis"
  show False
  proof (cases "get_value to_float tbl ''acq_imaged_volume'' (Finite 1)")
    case (Inl e1)
    then show False using assms a by (simp add: tsv_record_def bind_err_def)
  next
    case iv: (Inr iv)
    show False
    proof (cases "get_value to_float tbl ''sample_dilution_factor'' (Finite 1)")
      case (Inl e1)
      then show False using assms a iv by (simp add: tsv_record_def bind_err_def)
    next
      case dil: (Inr dil)
      show False
      proof (cases "get_value to_float tbl ''sample_concentrated_sample_volume'' (Finite 1)")
        case (Inl e1)
        then show False using assms a iv dil by (simp add: tsv_record_def bind_err_def)
      next
        case cv: (Inr cv)
        show False
        proof (cases "get_value to_float tbl ''sample_total_volume'' (Finite 1)")
          case (Inl e1)
          then show False using assms a iv dil cv by (simp add: tsv_record_def bind_err_def)
        next
          case tv: (Inr tv)
          show False using assms tsv_record_unfold[OF iv dil cv tv, of tsv n] by simp
        qed
      qed
    qed
  qed
qed

lemma sample_table_values:
  "get_value Inr sample_table ''acq_imaged_volume'' (Finite 1) = Inr (Finite 10)"
  "get_value Inr sample_table ''sample_dilution_factor'' (Finite 1) = Inr (Finite 2)"
  "get_value Inr sample_table ''sample_concentrated_sample_volume'' (Finite 1) = Inr (Finite 5)"
  "get_value Inr sample_table ''sample_total_volume'' (Finite 1) = Inr (Finite 25)"
  by (simp_all add: get_value_def sample_table_def truthy_def as_double_def double_values)

lemma steep_table_values:
  "get_value Inr steep_table ''acq_imaged_volume'' (Finite 1) = Inr (Finite 1)"
  "get_value Inr steep_table ''sample_dilution_factor'' (Finite 1) = Inr (Finite (2 ^ 1023))"
  "get_value Inr steep_table ''sample_concentrated_sample_volume'' (Finite 1) = Inr (Finite 500)"
  "get_value Inr steep_table ''sample_total_volume'' (Finite 1) = Inr (Finite 1)"
  by (simp_all add: get_value_def steep_table_def truthy_def as_double_def double_values
        double_large[simplified])

lemma sample_concentration:
  "fmul (fmul (fdiv (count_to_float 100) (Finite 10)) (Finite 2)) (fdiv (Finite 5) (fmul (Finite 25) (Finite 1000)))
     = Finite (4611686018427388 / 2 ^ 60)"
  by (simp add: count_to_float_def double_values double_fractions[simplified])

lemma steep_concentration:
  "fmul (fmul (fdiv (count_to_float 2) (Finite 1)) (Finite (2 ^ 1023))) (fdiv (Finite 500) (fmul (Finite 1) (Finite 1000)))
     = PInf"
  by (simp add: count_to_float_def double_values double_overflow[simplified] inf_signed_def is_neg_def)

text \<open>
  Claim C1, the worked example. With 100 objects and the volumes 10, 2, 5 and 25 the
  code computes \<open>(100 / 10) * 2 * (5 / (25 * 1000))\<close>, which is the double 0.004, not the
  double 0.008.
\<close>

theorem concentration_example_counterexample:
  "map_sum id objects_per_ml (tsv_record Inr ''sample.tsv'' sample_table 100) = Inr (round_double (4 / 1000))
   \<and> map_sum id objects_per_ml (tsv_record Inr ''sample.tsv'' sample_table 100) \<noteq> Inr (round_double (8 / 1000))"
  by (simp add: tsv_record_unfold[OF sample_table_values] sample_concentration[simplified]
        double_fractions[simplified])

text \<open>
  Claim C1, amended. Whenever the four extractions (default 1) return, the record is
  built and its concentration is
  \<open>(nb_objects / acq_imaged_volume) * sample_dilution_factor *
  (sample_concentrated_sample_volume / (sample_total_volume * 1000))\<close> in the arithmetic of
  doubles, with the operations in this order and each one rounded: when the count, the
  four scalars and the results of the first four operations are finite, each result is the
  rounding of the exact result of its operation on the results before it, and the
  concentration is the rounding of the product of the last two. At the worked example the
  value is the double 0.004.
\<close>

theorem concentration_formula:
  assumes "get_value to_float tbl ''acq_imaged_volume'' (Finite 1) = Inr iv"
    and "get_value to_float tbl ''sample_dilution_factor'' (Finite 1) = Inr dil"
    and "get_value to_float tbl ''sample_concentrated_sample_volume'' (Finite 1) = Inr cv"
    and "get_value to_float tbl ''sample_total_volume'' (Finite 1) = Inr tv"
  shows "\<exists>r. tsv_record to_float tsv tbl n = Inr r
     \<and> objects_per_ml r = fmul (fmul (fdiv (count_to_float n) iv) dil) (fdiv cv (fmul tv (Finite 1000)))
     \<and> (\<forall>k a b c d q1 p1 m1 q2.
           count_to_float n = Finite k \<and> iv = Finite a \<and> dil = Finite b \<and> cv = Finite c \<and> tv = Finite d
           \<and> round_double (k / a) = Finite q1 \<and> round_double (q1 * b) = Finite p1
           \<and> round_double (d * 1000) = Finite m1 \<and> round_double (c / m1) = Finite q2
          \<longrightarrow> objects_per_ml r = round_double (p1 * q2))"
  by (auto simp: tsv_record_unfold[OF assms])

theorem concentration_formula_witness:
  "(\<exists>r. tsv_record Inr ''sample.tsv'' sample_table 100 = Inr r
        \<and> objects_per_ml r = round_double (4 / 1000)
        \<and> objects_per_ml r = Finite (4611686018427388 / 2 ^ 60))
   \<and> (\<exists>r. tsv_record Inr ''sample.tsv'' steep_table 2 = Inr r \<and> objects_per_ml r = PInf)"
proof (intro conjI)
  from concentration_formula[OF sample_table_values, of "''sample.tsv''" 100]
  obtain r where r: "tsv_record Inr ''sample.tsv'' sample_table 100 = Inr r"
    "objects_per_ml r = fmul (fmul (fdiv (count_to_float 100) (Finite 10)) (Finite 2))
        (fdiv (Finite 5) (fmul (Finite 25) (Finite 1000)))"
    by blast
  have "objects_per_ml r = Finite (4611686018427388 / 2 ^ 60)"
    using r(2) by (simp only: sample_concentration)
  moreover have "round_double (4 / 1000) = Finite (4611686018427388 / 2 ^ 60)"
    by (rule double_fractions)
  ultimately show "\<exists>r. tsv_record Inr ''sample.tsv'' sample_table 100 = Inr r
        \<and> objects_per_ml r = round_double (4 / 1000)
        \<and> objects_per_ml r = Finite (4611686018427388 / 2 ^ 60)"
    using r(1) by simp
next
  from concentration_formula[OF steep_table_values, of "''sample.tsv''" 2]
  obtain r where r: "tsv_record Inr ''sample.tsv'' steep_table 2 = Inr r"
    "objects_per_ml r = fmul (fmul (fdiv (count_to_float 2) (Finite 1)) (Finite (2 ^ 1023)))
        (fdiv (Finite 500) (fmul (Finite 1) (Finite 1000)))"
    by blast
  have "objects_per_ml r = PInf" using r(2) by (simp only: steep_concentration)
  with r(1) show "\<exists>r. tsv_record Inr ''sample.tsv'' steep_table 2 = Inr r \<and> objects_per_ml r = PInf"
    by simp
qed

section \<open>Splitting the file name\<close>

lemma split_go_nonempty: "split_go sep acc s \<noteq> []"
  by (induction sep acc s rule: split_go.induct) auto

lemma prefix_drop_eq:
  assumes "sep \<noteq> []" "prefix sep (c # cs)"
  shows "c # cs = sep @ drop (length sep - 1) cs"
proof -
  from assms(2) obtain r where r: "c # cs = sep @ r" by (auto simp: prefix_def)
  from assms(1) obtain s0 ss where sep: "sep = s0 # ss" by (cases sep) auto
  from r sep have "cs = ss @ r" by simp
  then have "drop (length sep - 1) cs = r" using sep by simp
  with r show ?thesis by simp
qed

lemma split_go_no_sep:
  "\<not> sublist sep (rev acc @ s) \<Longrightarrow> split_go sep acc s = [rev acc @ s]"
proof (induction sep acc s rule: split_go.induct)
  case (1 sep acc)
  then show ?case by simp
next
  case (2 sep acc c cs)
  have np: "\<not> prefix sep (c # cs)"
  proof
    assume "prefix sep (c # cs)"
    then have "sublist sep (c # cs)" by (rule prefix_imp_sublist)
    then have "sublist sep (rev acc @ c # cs)"
      by (metis sublist_append)
    with 2 show False by simp
  qed
  from 2(3) have "\<not> sublist sep (rev (c # acc) @ cs)" by simp
  with 2 np show ?case by simp
qed

lemma split_go_last_decomp:
  "split_go sep acc s = [rev acc @ s]
   \<or> (\<exists>pre. rev acc @ s = pre @ sep @ last (split_go sep acc s))"
proof (induction sep acc s rule: split_go.induct)
  case (1 sep acc)
  then show ?case by simp
next
  case (2 sep acc c cs)
  show ?case
  proof (cases "sep \<noteq> [] \<and> prefix sep (c # cs)")
    case True
    let ?rest = "drop (length sep - 1) cs"
    have eq: "c # cs = sep @ ?rest" using True prefix_drop_eq[of sep c cs] by blast
    have res: "split_go sep acc (c # cs) = rev acc # split_go sep [] ?rest" using True by simp
    then have lst: "last (split_go sep acc (c # cs)) = last (split_go sep [] ?rest)"
      by (simp add: split_go_nonempty)
    from 2(1)[OF True] have "split_go sep [] ?rest = [?rest]
       \<or> (\<exists>pre. ?rest = pre @ sep @ last (split_go sep [] ?rest))" by simp
    then show ?thesis
    proof
      assume "split_go sep [] ?rest = [?rest]"
      then have "rev acc @ c # cs = rev acc @ sep @ last (split_go sep acc (c # cs))"
        using eq lst by simp
      then show ?thesis by blast
    next
      assume "\<exists>pre. ?rest = pre @ sep @ last (split_go sep [] ?rest)"
      then obtain pre where p: "?rest = pre @ sep @ last (split_go sep [] ?rest)" ..
      have "rev acc @ c # cs = (rev acc @ sep @ pre) @ sep @ last (split_go sep acc (c # cs))"
        using eq lst p by (metis append_assoc)
      then show ?thesis by blast
    qed
  next
    case False
    then have res: "split_go sep acc (c # cs) = split_go sep (c # acc) cs" by auto
    from 2(2)[OF False] show ?thesis unfolding res by simp
  qed
qed

lemma sublist_iff_prefix_drop:
  "sublist sep xs \<longleftrightarrow> (\<exists>k. prefix sep (drop k xs))"
proof
  assume "sublist sep xs"
  then obtain ps ss where "xs = ps @ sep @ ss" by (auto simp: sublist_def)
  then have "prefix sep (drop (length ps) xs)" by simp
  then show "\<exists>k. prefix sep (drop k xs)" ..
next
  assume "\<exists>k. prefix sep (drop k xs)"
  then obtain k where "prefix sep (drop k xs)" ..
  then obtain r where "drop k xs = sep @ r" by (auto simp: prefix_def)
  then have "xs = take k xs @ sep @ r" by (metis append_take_drop_id)
  then show "sublist sep xs" unfolding sublist_def by blast
qed

lemma split_go_last_clean:
  assumes "sep \<noteq> []" and "\<forall>k < length acc. \<not> prefix sep (drop k (rev acc @ s))"
  shows "\<not> sublist sep (last (split_go sep acc s))"
  using assms
proof (induction sep acc s rule: split_go.induct)
  case (1 sep acc)
  have "\<not> prefix sep (drop k (rev acc))" for k
  proof (cases "k < length acc")
    case True
    with 1 show ?thesis by simp
  next
    case False
    then show ?thesis using 1(1) by simp
  qed
  then show ?case by (simp add: sublist_iff_prefix_drop)
next
  case (2 sep acc c cs)
  show ?case
  proof (cases "prefix sep (c # cs)")
    case True
    with 2(3) have t: "sep \<noteq> [] \<and> prefix sep (c # cs)" by simp
    have "\<not> sublist sep (last (split_go sep [] (drop (length sep - 1) cs)))"
      using 2(1)[OF t] 2(3) by simp
    then show ?thesis using t by (simp add: split_go_nonempty)
  next
    case False
    then have f: "\<not> (sep \<noteq> [] \<and> prefix sep (c # cs))" by simp
    have inv: "\<forall>k < length (c # acc). \<not> prefix sep (drop k (rev (c # acc) @ cs))"
    proof (intro allI impI)
      fix k assume k: "k < length (c # acc)"
      show "\<not> prefix sep (drop k (rev (c # acc) @ cs))"
      proof (cases "k < length acc")
        case True
        with 2(4) show ?thesis by simp
      next
        case False
        with k have "k = length acc" by simp
        then show ?thesis using \<open>\<not> prefix sep (c # cs)\<close> by simp
      qed
    qed
    from 2(2)[OF f 2(3) inv] show ?thesis using f by auto
  qed
qed

lemma split_last_clean: "sep \<noteq> [] \<Longrightarrow> \<not> sublist sep (last (split sep s))"
  unfolding split_def by (rule split_go_last_clean) simp_all

lemma split_no_sep: "\<not> sublist sep s \<Longrightarrow> split sep s = [s]"
  unfolding split_def using split_go_no_sep[of sep "[]" s] by simp

lemma split_last_decomp:
  assumes "sep \<noteq> []" "sublist sep s"
  shows "\<exists>pre. s = pre @ sep @ last (split sep s)"
proof -
  from split_go_last_decomp[of sep "[]" s]
  have "split sep s = [s] \<or> (\<exists>pre. s = pre @ sep @ last (split sep s))"
    by (simp add: split_def)
  moreover have "split sep s \<noteq> [s]"
  proof
    assume "split sep s = [s]"
    then have "last (split sep s) = s" by simp
    with split_last_clean[OF assms(1), of s] assms(2) show False by simp
  qed
  ultimately show ?thesis by blast
qed

lemma basename_decomp:
  "\<exists>dir. p = dir @ basename p \<and> (dir = [] \<or> last dir = CHR ''/'')"
proof -
  let ?P = "\<lambda>c. c \<noteq> CHR ''/''"
  let ?dir = "rev (dropWhile ?P (rev p))"
  have "?dir @ rev (takeWhile ?P (rev p)) = rev (takeWhile ?P (rev p) @ dropWhile ?P (rev p))"
    by (simp only: rev_append)
  also have "\<dots> = rev (rev p)" by (simp only: takeWhile_dropWhile_id)
  also have "\<dots> = p" by simp
  finally have 1: "p = ?dir @ basename p" by (simp add: basename_def)
  have 2: "?dir = [] \<or> last ?dir = CHR ''/''"
  proof (cases "dropWhile ?P (rev p)")
    case Nil
    then show ?thesis by simp
  next
    case (Cons a as)
    then have "\<not> ?P (hd (dropWhile ?P (rev p)))" using hd_dropWhile[of ?P "rev p"] by simp
    then show ?thesis using Cons by (simp add: last_rev)
  qed
  from 1 2 show ?thesis by blast
qed

lemma basename_no_slash: "CHR ''/'' \<notin> set (basename p)"
  unfolding basename_def using set_takeWhileD[of "CHR ''/''" "\<lambda>c. c \<noteq> CHR ''/''" "rev p"] by auto

lemma sublist_basename: "sublist s (basename p) \<Longrightarrow> sublist s p"
proof -
  assume a: "sublist s (basename p)"
  obtain dir where "p = dir @ basename p" using basename_decomp by blast
  moreover obtain ps ss where "basename p = ps @ s @ ss" using a by (auto simp: sublist_def)
  ultimately have "p = (dir @ ps) @ s @ ss" by simp
  then show ?thesis unfolding sublist_def by blast
qed

text \<open>
  Claim C6. The file name of a record is the last segment of the split of the base name
  on \<open>zip:\<close>; the base name is what follows the last slash of the path. A path without
  \<open>zip:\<close> keeps its base name; otherwise the file name is what follows an occurrence of
  \<open>zip:\<close> in the base name, and it holds no \<open>zip:\<close> itself.
  \<open>archive.zip:sample_001.tsv\<close> gives \<open>sample_001.tsv\<close>.
\<close>

theorem filename_strips_archive_qualifier:
  "(tsv_record to_float tsv tbl n = Inr r \<longrightarrow> filename r = filename_of tsv)
   \<and> filename_of tsv = last (split ''zip:'' (basename tsv))
   \<and> (\<exists>dir. tsv = dir @ basename tsv \<and> (dir = [] \<or> last dir = CHR ''/'') \<and> CHR ''/'' \<notin> set (basename tsv))
   \<and> (\<not> sublist ''zip:'' tsv \<longrightarrow> filename_of tsv = basename tsv)
   \<and> (sublist ''zip:'' (basename tsv) \<longrightarrow> (\<exists>pre. basename tsv = pre @ ''zip:'' @ filename_of tsv))
   \<and> \<not> sublist ''zip:'' (filename_of tsv)
   \<and> filename_of ''archive.zip:sample_001.tsv'' = ''sample_001.tsv''"
proof (intro conjI impI)
  assume "tsv_record to_float tsv tbl n = Inr r"
  then show "filename r = filename_of tsv"
    by (auto simp: tsv_record_def bind_err_def split: sum.splits)
next
  show "filename_of tsv = last (split ''zip:'' (basename tsv))" by (simp add: filename_of_def)
next
  show "\<exists>dir. tsv = dir @ basename tsv \<and> (dir = [] \<or> last dir = CHR ''/'') \<and> CHR ''/'' \<notin> set (basename tsv)"
    using basename_decomp[of tsv] basename_no_slash[of tsv] by blast
next
  assume "\<not> sublist ''zip:'' tsv"
  then have "\<not> sublist ''zip:'' (basename tsv)" using sublist_basename by blast
  then show "filename_of tsv = basename tsv" by (simp add: filename_of_def split_no_sep)
next
  assume "sublist ''zip:'' (basename tsv)"
  then show "\<exists>pre. basename tsv = pre @ ''zip:'' @ filename_of tsv"
    unfolding filename_of_def by (intro split_last_decomp) simp_all
next
  show "\<not> sublist ''zip:'' (filename_of tsv)"
    unfolding filename_of_def by (rule split_last_clean) simp
next
  show "filename_of ''archive.zip:sample_001.tsv'' = ''sample_001.tsv''"
    by (simp add: filename_of_def basename_def split_def)
qed

theorem filename_strips_archive_qualifier_witness:
  "\<not> sublist ''zip:'' ''../data/export/sample_001.tsv''
   \<and> filename_of ''../data/export/sample_001.tsv'' = ''sample_001.tsv''
   \<and> sublist ''zip:'' (basename ''../data/export/archive.zip:sample_001.tsv'')
   \<and> filename_of ''../data/export/archive.zip:sample_001.tsv'' = ''sample_001.tsv''
   \<and> filename (projr (tsv_record Inr ''../data/export/archive.zip:sample_001.tsv'' sample_table 100)) = ''sample_001.tsv''"
proof -
  have 1: "\<not> sublist ''zip:'' ''../data/export/sample_001.tsv''" by (simp add: sublist_code)
  have 2: "basename ''../data/export/sample_001.tsv'' = ''sample_001.tsv''" by (simp add: basename_def)
  have 3: "basename ''../data/export/archive.zip:sample_001.tsv'' = ''archive.zip:sample_001.tsv''"
    by (simp add: basename_def)
  have 4: "sublist ''zip:'' ''archive.zip:sample_001.tsv''" by (simp add: sublist_code)
  have 5: "tsv_record Inr ''../data/export/archive.zip:sample_001.tsv'' sample_table 100
            = Inr (projr (tsv_record Inr ''../data/export/archive.zip:sample_001.tsv'' sample_table 100))"
    by (simp add: tsv_record_unfold[OF sample_table_values])
  have 6: "filename_of ''../data/export/archive.zip:sample_001.tsv'' = ''sample_001.tsv''"
    by (simp add: filename_of_def basename_def split_def)
  note t1 = filename_strips_archive_qualifier[of Inr "''../data/export/sample_001.tsv''" sample_table 100 undefined]
  note t2 = filename_strips_archive_qualifier[of Inr "''../data/export/archive.zip:sample_001.tsv''" sample_table 100
      "projr (tsv_record Inr ''../data/export/archive.zip:sample_001.tsv'' sample_table 100)"]
  from t1 have "\<not> sublist ''zip:'' ''../data/export/sample_001.tsv''
      \<longrightarrow> filename_of ''../data/export/sample_001.tsv'' = basename ''../data/export/sample_001.tsv''"
    by (elim conjE)
  with 1 2 have a: "filename_of ''../data/export/sample_001.tsv'' = ''sample_001.tsv''" by simp
  from t2 have "tsv_record Inr ''../data/export/archive.zip:sample_001.tsv'' sample_table 100
      = Inr (projr (tsv_record Inr ''../data/export/archive.zip:sample_001.tsv'' sample_table 100))
    \<longrightarrow> filename (projr (tsv_record Inr ''../data/export/archive.zip:sample_001.tsv'' sample_table 100))
      = filename_of ''../data/export/archive.zip:sample_001.tsv''"
    by (elim conjE)
  with 5 6 have b: "filename (projr (tsv_record Inr ''../data/export/archive.zip:sample_001.tsv'' sample_table 100)) = ''sample_001.tsv''"
    by simp
  from 1 a 3 4 6 b show ?thesis by simp
qed

text \<open>
  Claim C9. With a default that is not zero the extractor never returns zero. Hence, with
  the default 1, the imaged volume and the total volume times 1000 are not zero, both
  divisions of the formula return, and the only exceptions that leave the builder are
  those \<open>float\<close> raised and the extractor did not catch: never a division by zero.
\<close>

theorem no_division_by_zero:
  "(dflt \<noteq> Finite 0 \<longrightarrow> get_value to_float tbl column dflt \<noteq> Inr (Finite 0))
   \<and> (get_value to_float tbl ''acq_imaged_volume'' (Finite 1) = Inr iv
        \<longrightarrow> iv \<noteq> Finite 0 \<and> py_truediv x iv = Inr (fdiv x iv))
   \<and> (get_value to_float tbl ''sample_total_volume'' (Finite 1) = Inr tv
        \<longrightarrow> fmul tv (Finite 1000) \<noteq> Finite 0
            \<and> py_truediv y (fmul tv (Finite 1000)) = Inr (fdiv y (fmul tv (Finite 1000))))
   \<and> ((\<exists>r. tsv_record to_float tsv tbl n = Inr r)
        \<or> (\<exists>c e. to_float c = Inl e \<and> tsv_record to_float tsv tbl n = Inl e))"
proof (intro conjI impI)
  assume "dflt \<noteq> Finite 0"
  then show "get_value to_float tbl column dflt \<noteq> Inr (Finite 0)" by (rule get_value_nonzero)
next
  assume a: "get_value to_float tbl ''acq_imaged_volume'' (Finite 1) = Inr iv"
  have "iv \<noteq> Finite 0"
    using get_value_nonzero[of "Finite 1" to_float tbl "''acq_imaged_volume''"] a by auto
  then show "iv \<noteq> Finite 0" and "py_truediv x iv = Inr (fdiv x iv)"
    by (simp_all add: py_truediv_nonzero)
next
  assume a: "get_value to_float tbl ''sample_total_volume'' (Finite 1) = Inr tv"
  have "fmul tv (Finite 1000) \<noteq> Finite 0"
    using get_value_double[OF a] by (rule fmul_1000_nonzero)
  then show "fmul tv (Finite 1000) \<noteq> Finite 0"
    and "py_truediv y (fmul tv (Finite 1000)) = Inr (fdiv y (fmul tv (Finite 1000)))"
    by (simp_all add: py_truediv_nonzero)
next
  show "(\<exists>r. tsv_record to_float tsv tbl n = Inr r)
        \<or> (\<exists>c e. to_float c = Inl e \<and> tsv_record to_float tsv tbl n = Inl e)"
  proof (cases "tsv_record to_float tsv tbl n")
    case (Inr r)
    then show ?thesis by blast
  next
    case (Inl e)
    have "\<exists>column. get_value to_float tbl column (Finite 1) = Inl e"
      using tsv_record_error[OF Inl] by blast
    then obtain column where "get_value to_float tbl column (Finite 1) = Inl e" ..
    then have "\<exists>c. to_float c = Inl e"
      by (auto simp: get_value_def Let_def split: option.splits list.splits sum.splits if_splits)
    with Inl show ?thesis by blast
  qed
qed

theorem no_division_by_zero_witness:
  "get_value Inr zero_table ''acq_imaged_volume'' (Finite 1) = Inr (Finite 1)
   \<and> py_truediv (Finite 100) (Finite 1) = Inr (Finite 100)
   \<and> get_value Inr zero_table ''sample_total_volume'' (Finite 1) = Inr (Finite 1)
   \<and> py_truediv (Finite 1) (fmul (Finite 1) (Finite 1000)) = Inr (round_double (1 / 1000))
   \<and> (\<exists>r. tsv_record Inr ''sample.tsv'' zero_table 100 = Inr r)"
proof -
  have 1: "get_value Inr zero_table ''acq_imaged_volume'' (Finite 1) = Inr (Finite 1)"
    by (simp add: get_value_def zero_table_def truthy_def as_double_def round_double_def)
  have 2: "get_value Inr zero_table ''sample_total_volume'' (Finite 1) = Inr (Finite 1)"
    by (simp add: get_value_def zero_table_def truthy_def as_double_def round_double_def)
  note t = no_division_by_zero[of "Finite 1" Inr zero_table "''acq_imaged_volume''" "Finite 1" "Finite 100"
      "Finite 1" "Finite 1" "''sample.tsv''" 100]
  from t 1 have 3: "py_truediv (Finite 100) (Finite 1) = Inr (fdiv (Finite 100) (Finite 1))" by blast
  from t 2 have 4: "py_truediv (Finite 1) (fmul (Finite 1) (Finite 1000))
      = Inr (fdiv (Finite 1) (fmul (Finite 1) (Finite 1000)))" by blast
  from t have 5: "(\<exists>r. tsv_record Inr ''sample.tsv'' zero_table 100 = Inr r)
      \<or> (\<exists>c e. (Inr c :: error + pyfloat) = Inl e \<and> tsv_record Inr ''sample.tsv'' zero_table 100 = Inl e)"
    by (elim conjE)
  have 6: "fdiv (Finite 100) (Finite 1) = Finite 100" by (simp add: double_values)
  have 7: "fdiv (Finite 1) (fmul (Finite 1) (Finite 1000)) = round_double (1 / 1000)"
    by (simp add: double_values)
  from 1 2 3 4 5 6 7 show ?thesis by simp
qed

section \<open>Deleting duplicates keeps the last\<close>

lemma dedup_scan_Cons:
  "map snd (filter (\<lambda>(n, i). \<not> py_in ceq i (drop (n + 1) (pre @ x # xs))) (enumerate (length pre) (x # xs)))
   = (if py_in ceq x xs then [] else [x])
     @ map snd (filter (\<lambda>(n, i). \<not> py_in ceq i (drop (n + 1) ((pre @ [x]) @ xs))) (enumerate (length (pre @ [x])) xs))"
  by simp

lemma dedup_scan_shift:
  "map snd (filter (\<lambda>(n, i). \<not> py_in ceq i (drop (n + 1) (pre @ xs))) (enumerate (length pre) xs))
   = delete_duplicates ceq xs"
proof (induction xs arbitrary: pre)
  case Nil
  show ?case by (simp add: delete_duplicates_def)
next
  case (Cons x xs)
  have "delete_duplicates ceq (x # xs)
      = (if py_in ceq x xs then [] else [x])
        @ map snd (filter (\<lambda>(n, i). \<not> py_in ceq i (drop (n + 1) (([] @ [x]) @ xs))) (enumerate (length ([] @ [x])) xs))"
    unfolding delete_duplicates_def using dedup_scan_Cons[of ceq "[]" x xs] by simp
  also have "\<dots> = (if py_in ceq x xs then [] else [x]) @ delete_duplicates ceq xs"
    by (simp only: Cons.IH)
  finally have r: "delete_duplicates ceq (x # xs) = (if py_in ceq x xs then [] else [x]) @ delete_duplicates ceq xs" .
  show ?case
    by (simp only: dedup_scan_Cons Cons.IH r)
qed

lemma delete_duplicates_Nil: "delete_duplicates ceq [] = []"
  by (simp add: delete_duplicates_def)

lemma delete_duplicates_Cons:
  "delete_duplicates ceq (x # xs) = (if py_in ceq x xs then [] else [x]) @ delete_duplicates ceq xs"
  using dedup_scan_Cons[of ceq "[]" x xs] dedup_scan_shift[of ceq "[x]" xs]
  by (simp add: delete_duplicates_def)

lemma py_in_nth:
  "py_in ceq x xs \<longleftrightarrow> (\<exists>m. m < length xs \<and> dict_eq ceq (xs ! m) x)"
  unfolding py_in_def list_ex_iff by (metis in_set_conv_nth)

lemma set_delete_duplicates: "set (delete_duplicates ceq xs) \<subseteq> set xs"
  by (induction xs) (auto simp: delete_duplicates_Nil delete_duplicates_Cons)

lemma delete_duplicates_nths:
  "delete_duplicates ceq xs
   = nths xs {n. \<not> (\<exists>m. n < m \<and> m < length xs \<and> dict_eq ceq (xs ! m) (xs ! n))}"
proof (induction xs)
  case Nil
  show ?case by (simp add: delete_duplicates_Nil)
next
  case (Cons x xs)
  let ?A = "{n. \<not> (\<exists>m. n < m \<and> m < length (x # xs) \<and> dict_eq ceq ((x # xs) ! m) ((x # xs) ! n))}"
  have zero: "0 \<in> ?A \<longleftrightarrow> \<not> py_in ceq x xs"
  proof -
    have iff: "(\<exists>m. 0 < m \<and> m < length (x # xs) \<and> dict_eq ceq ((x # xs) ! m) x)
          \<longleftrightarrow> (\<exists>k. k < length xs \<and> dict_eq ceq (xs ! k) x)"
    proof
      assume "\<exists>m. 0 < m \<and> m < length (x # xs) \<and> dict_eq ceq ((x # xs) ! m) x"
      then obtain m where m: "0 < m" "m < length (x # xs)" "dict_eq ceq ((x # xs) ! m) x" by blast
      then obtain k where "m = Suc k" by (cases m) auto
      with m show "\<exists>k. k < length xs \<and> dict_eq ceq (xs ! k) x" by auto
    next
      assume "\<exists>k. k < length xs \<and> dict_eq ceq (xs ! k) x"
      then obtain k where "k < length xs" "dict_eq ceq (xs ! k) x" by blast
      then have "0 < Suc k \<and> Suc k < length (x # xs) \<and> dict_eq ceq ((x # xs) ! Suc k) x" by simp
      then show "\<exists>m. 0 < m \<and> m < length (x # xs) \<and> dict_eq ceq ((x # xs) ! m) x" by blast
    qed
    have "0 \<in> ?A \<longleftrightarrow> \<not> (\<exists>m. 0 < m \<and> m < length (x # xs) \<and> dict_eq ceq ((x # xs) ! m) x)"
      by (simp only: mem_Collect_eq nth_Cons_0)
    also have "\<dots> \<longleftrightarrow> \<not> (\<exists>k. k < length xs \<and> dict_eq ceq (xs ! k) x)"
      by (simp only: iff)
    also have "\<dots> \<longleftrightarrow> \<not> py_in ceq x xs"
      by (simp only: py_in_nth)
    finally show ?thesis .
  qed
  have shift: "{j. Suc j \<in> ?A} = {n. \<not> (\<exists>m. n < m \<and> m < length xs \<and> dict_eq ceq (xs ! m) (xs ! n))}"
  proof -
    have iff: "(\<exists>m. Suc j < m \<and> m < length (x # xs) \<and> dict_eq ceq ((x # xs) ! m) ((x # xs) ! Suc j))
          \<longleftrightarrow> (\<exists>k. j < k \<and> k < length xs \<and> dict_eq ceq (xs ! k) (xs ! j))" for j
    proof
      assume "\<exists>m. Suc j < m \<and> m < length (x # xs) \<and> dict_eq ceq ((x # xs) ! m) ((x # xs) ! Suc j)"
      then obtain m where m: "Suc j < m" "m < length (x # xs)" "dict_eq ceq ((x # xs) ! m) ((x # xs) ! Suc j)"
        by blast
      then obtain k where "m = Suc k" by (cases m) auto
      with m show "\<exists>k. j < k \<and> k < length xs \<and> dict_eq ceq (xs ! k) (xs ! j)" by auto
    next
      assume "\<exists>k. j < k \<and> k < length xs \<and> dict_eq ceq (xs ! k) (xs ! j)"
      then obtain k where "j < k" "k < length xs" "dict_eq ceq (xs ! k) (xs ! j)" by blast
      then have "Suc j < Suc k \<and> Suc k < length (x # xs) \<and> dict_eq ceq ((x # xs) ! Suc k) ((x # xs) ! Suc j)"
        by simp
      then show "\<exists>m. Suc j < m \<and> m < length (x # xs) \<and> dict_eq ceq ((x # xs) ! m) ((x # xs) ! Suc j)"
        by blast
    qed
    show ?thesis by (simp only: mem_Collect_eq iff)
  qed
  have "nths (x # xs) ?A = (if 0 \<in> ?A then [x] else []) @ nths xs {j. Suc j \<in> ?A}"
    by (rule nths_Cons)
  also have "\<dots> = (if py_in ceq x xs then [] else [x]) @ delete_duplicates ceq xs"
    unfolding shift Cons.IH[symmetric] using zero by simp
  finally show ?case by (simp add: delete_duplicates_Cons)
qed

lemma delete_duplicates_sorted_wrt:
  "sorted_wrt (\<lambda>a b. \<not> dict_eq ceq b a) (delete_duplicates ceq xs)"
proof (induction xs)
  case Nil
  show ?case by (simp add: delete_duplicates_Nil)
next
  case (Cons x xs)
  show ?case
  proof (cases "py_in ceq x xs")
    case True
    with Cons show ?thesis by (simp add: delete_duplicates_Cons)
  next
    case False
    then have "\<forall>y \<in> set xs. \<not> dict_eq ceq y x" by (simp add: py_in_def list_ex_iff)
    then have "\<forall>y \<in> set (delete_duplicates ceq xs). \<not> dict_eq ceq y x"
      using set_delete_duplicates[of ceq xs] by blast
    with Cons False show ?thesis by (simp add: delete_duplicates_Cons)
  qed
qed

lemma feq_sym: "feq x y = feq y x"
  by (auto simp: feq_def)

lemma opt_eq_sym: "(\<forall>c d. ceq c d = ceq d c) \<Longrightarrow> opt_eq ceq a b = opt_eq ceq b a"
  by (cases a; cases b) (simp_all add: opt_eq_def)

lemma dict_eq_sym: "(\<forall>c d. ceq c d = ceq d c) \<Longrightarrow> dict_eq ceq a b = dict_eq ceq b a"
  unfolding dict_eq_def using feq_sym[of "objects_per_ml a" "objects_per_ml b"]
    opt_eq_sym[of ceq "date a" "date b"] opt_eq_sym[of ceq "lat a" "lat b"] opt_eq_sym[of ceq "lon a" "lon b"]
  by auto

lemma subseq_delete_duplicates: "subseq (delete_duplicates ceq xs) xs"
  by (induction xs) (auto simp: delete_duplicates_Nil delete_duplicates_Cons)

lemma delete_duplicates_pair_differ:
  assumes "\<not> feq (objects_per_ml a) (objects_per_ml b)"
  shows "\<not> dict_eq ceq a b \<and> delete_duplicates ceq [a, b] = [a, b]"
proof -
  have 1: "\<not> dict_eq ceq a b" using assms by (simp add: dict_eq_def)
  have 2: "\<not> dict_eq ceq b a" using assms feq_sym[of "objects_per_ml a" "objects_per_ml b"]
    by (simp add: dict_eq_def)
  show ?thesis using 1 2 by (simp add: delete_duplicates_Cons delete_duplicates_Nil py_in_def)
qed

lemma raw_row_sel:
  "filename (raw_row s) = ''sample.tsv''" "objects_per_ml (raw_row s) = round_double (1 / 10)"
  "date (raw_row s) = Some s" "lat (raw_row s) = None" "lon (raw_row s) = None"
  by (simp_all add: raw_row_def)

lemma dict_eq_raw_row: "dict_eq (=) (raw_row s) (raw_row t) \<longleftrightarrow> s = t"
  by (auto simp: dict_eq_def raw_row_def feq_def opt_eq_def round_double_not_NaN)

lemma dict_eq_denser:
  "\<not> dict_eq (=) (denser_row s) (raw_row t)" "\<not> dict_eq (=) (raw_row t) (denser_row s)"
  "dict_eq (=) (denser_row s) (denser_row s)"
  by (simp_all add: dict_eq_def denser_row_def raw_row_def feq_def opt_eq_def double_fractions)

lemma dedup_twins:
  "s \<noteq> t \<Longrightarrow> delete_duplicates (=) [raw_row s, raw_row t] = [raw_row s, raw_row t]"
  by (simp add: delete_duplicates_Cons delete_duplicates_Nil py_in_def dict_eq_raw_row)

text \<open>
  Claim C2. Deduplication keeps exactly the records at the positions \<open>n\<close> for which no
  later record equals (\<open>==\<close>) the record at \<open>n\<close>, in their original order (\<open>nths\<close>
  selects positions and keeps the order; the result is a subsequence of the input). Of
  two equal records the later one is kept, not the first.
\<close>

theorem delete_duplicates_keeps_last:
  "delete_duplicates ceq xs
     = nths xs {n. \<not> (\<exists>m. n < m \<and> m < length xs \<and> dict_eq ceq (xs ! m) (xs ! n))}
   \<and> subseq (delete_duplicates ceq xs) xs
   \<and> (dict_eq ceq b a \<longrightarrow> delete_duplicates ceq [a, b] = [b])"
  using delete_duplicates_nths[of ceq xs] subseq_delete_duplicates[of ceq xs]
  by (simp add: delete_duplicates_Cons delete_duplicates_Nil py_in_def)

theorem delete_duplicates_keeps_last_witness:
  "nths [raw_row ''2023-07-04T10:15:00'', denser_row ''2023-07-04T10:15:00'', raw_row ''2023-07-04T10:15:00'']
     {n. \<not> (\<exists>m. n < m
           \<and> m < length [raw_row ''2023-07-04T10:15:00'', denser_row ''2023-07-04T10:15:00'', raw_row ''2023-07-04T10:15:00'']
           \<and> dict_eq (=)
               ([raw_row ''2023-07-04T10:15:00'', denser_row ''2023-07-04T10:15:00'', raw_row ''2023-07-04T10:15:00''] ! m)
               ([raw_row ''2023-07-04T10:15:00'', denser_row ''2023-07-04T10:15:00'', raw_row ''2023-07-04T10:15:00''] ! n))}
     = [denser_row ''2023-07-04T10:15:00'', raw_row ''2023-07-04T10:15:00'']
   \<and> dict_eq (=) (raw_row ''2023-07-04T10:15:00'') (raw_row ''2023-07-04T10:15:00'')
   \<and> delete_duplicates (=) [raw_row ''2023-07-04T10:15:00'', raw_row ''2023-07-04T10:15:00'']
       = [raw_row ''2023-07-04T10:15:00'']"
proof -
  let ?a = "raw_row ''2023-07-04T10:15:00''" and ?b = "denser_row ''2023-07-04T10:15:00''"
  have d: "delete_duplicates (=) [?a, ?b, ?a] = [?b, ?a]"
    by (simp add: delete_duplicates_Cons delete_duplicates_Nil py_in_def dict_eq_denser dict_eq_raw_row)
  have e: "dict_eq (=) ?a ?a" by (simp add: dict_eq_raw_row)
  note t = delete_duplicates_keeps_last[of "(=)" "[?a, ?b, ?a]" ?a ?a]
  from t have "delete_duplicates (=) [?a, ?b, ?a]
      = nths [?a, ?b, ?a] {n. \<not> (\<exists>m. n < m \<and> m < length [?a, ?b, ?a] \<and> dict_eq (=) ([?a, ?b, ?a] ! m) ([?a, ?b, ?a] ! n))}"
    by (elim conjE)
  with d have 1: "nths [?a, ?b, ?a] {n. \<not> (\<exists>m. n < m \<and> m < length [?a, ?b, ?a] \<and> dict_eq (=) ([?a, ?b, ?a] ! m) ([?a, ?b, ?a] ! n))}
      = [?b, ?a]" by simp
  from t have "dict_eq (=) ?a ?a \<longrightarrow> delete_duplicates (=) [?a, ?a] = [?a]" by (elim conjE)
  with e have 2: "delete_duplicates (=) [?a, ?a] = [?a]" by simp
  from 1 e 2 show ?thesis by (intro conjI)
qed

section \<open>The date column and the returned frame\<close>

lemma to_datetime_column_Inr:
  "to_datetime_column td ds = Inr ts \<Longrightarrow>
     length ts = length ds
     \<and> (\<forall>i < length ds. (ds ! i = None \<longrightarrow> ts ! i = None) \<and> (\<forall>c. ds ! i = Some c \<longrightarrow> td c = Inr (ts ! i)))"
proof (induction ds arbitrary: ts)
  case Nil
  then show ?case by simp
next
  case (Cons d ds)
  from Cons.prems obtain t ts' where
    t: "(case d of None \<Rightarrow> Inr None | Some c \<Rightarrow> td c) = Inr t"
    and ts': "to_datetime_column td ds = Inr ts'" and ts: "ts = t # ts'"
    by (auto simp: bind_err_def split: sum.splits)
  from Cons.IH[OF ts'] have ih: "length ts' = length ds"
    "\<forall>i < length ds. (ds ! i = None \<longrightarrow> ts' ! i = None) \<and> (\<forall>c. ds ! i = Some c \<longrightarrow> td c = Inr (ts' ! i))"
    by simp_all
  show ?case
  proof (intro conjI allI impI)
    show "length ts = length (d # ds)" using ih(1) ts by simp
  next
    fix i assume "i < length (d # ds)" "(d # ds) ! i = None"
    then show "ts ! i = None" using ih(2) t ts by (cases i) (auto split: option.splits)
  next
    fix i c assume "i < length (d # ds)" "(d # ds) ! i = Some c"
    then show "td c = Inr (ts ! i)" using ih(2) t ts by (cases i) (auto split: option.splits)
  qed
qed

lemma to_datetime_column_fails:
  "Some c \<in> set ds \<Longrightarrow> td c = Inl e \<Longrightarrow> \<exists>e'. to_datetime_column td ds = Inl e'"
proof (induction ds)
  case Nil
  then show ?case by simp
next
  case (Cons d ds)
  show ?case
  proof (cases "Some c = d")
    case True
    with Cons.prems show ?thesis by (auto simp: bind_err_def)
  next
    case False
    with Cons obtain e' where "to_datetime_column td ds = Inl e'" by auto
    then show ?thesis by (auto simp: bind_err_def split: sum.splits)
  qed
qed

lemma to_datetime_column_returns:
  "(\<forall>c. Some c \<in> set ds \<longrightarrow> (\<exists>t. td c = Inr t)) \<Longrightarrow> \<exists>ts. to_datetime_column td ds = Inr ts"
proof (induction ds)
  case Nil
  then show ?case by simp
next
  case (Cons d ds)
  then obtain ts where ts: "to_datetime_column td ds = Inr ts" by auto
  have "\<exists>t. (case d of None \<Rightarrow> Inr None | Some c \<Rightarrow> td c) = Inr t"
    using Cons.prems by (cases d) auto
  then show ?case using ts by (auto simp: bind_err_def)
qed

lemma create_df_unfold:
  assumes "collect to_float load_dataframe (find_tsv_files path) = Inr collected"
  shows "create_df to_float ceq to_datetime find_tsv_files load_dataframe path =
     bind_err (to_datetime_column to_datetime (map date (delete_duplicates ceq collected)))
       (\<lambda>stamps. Inr (map2 with_date (delete_duplicates ceq collected) stamps))"
  by (simp add: create_df_def assms bind_err_def Let_def)

lemma create_df_Inr:
  assumes "create_df to_float ceq to_datetime find_tsv_files load_dataframe path = Inr d"
  shows "\<exists>collected stamps. collect to_float load_dataframe (find_tsv_files path) = Inr collected
     \<and> to_datetime_column to_datetime (map date (delete_duplicates ceq collected)) = Inr stamps
     \<and> length stamps = length (delete_duplicates ceq collected)
     \<and> d = map2 with_date (delete_duplicates ceq collected) stamps"
proof -
  from assms obtain collected where c: "collect to_float load_dataframe (find_tsv_files path) = Inr collected"
    by (auto simp: create_df_def bind_err_def split: sum.splits)
  from assms obtain stamps where
    s: "to_datetime_column to_datetime (map date (delete_duplicates ceq collected)) = Inr stamps"
    and d: "d = map2 with_date (delete_duplicates ceq collected) stamps"
    unfolding create_df_unfold[where find_tsv_files = find_tsv_files and path = path, OF c]
    by (auto simp: bind_err_def split: sum.splits)
  from to_datetime_column_Inr[OF s] have "length stamps = length (delete_duplicates ceq collected)" by simp
  with c s d show ?thesis by blast
qed

lemma digit_char_digit: "digit_char d \<in> set ''0123456789''"
proof -
  have "d mod 10 < length ''0123456789''" by simp
  then have "''0123456789'' ! (d mod 10) \<in> set ''0123456789''" by (rule nth_mem)
  then show ?thesis by (simp only: digit_char_def)
qed

lemma show_nat_digits: "set (show_nat n) \<subseteq> set ''0123456789''"
proof (induction n rule: show_nat.induct)
  case (1 n)
  show ?case
  proof (cases "n < 10")
    case True
    then have "show_nat n = [digit_char n]" by (simp add: show_nat.simps)
    then show ?thesis using digit_char_digit[of n] by simp
  next
    case False
    then have "show_nat n = show_nat (n div 10) @ [digit_char (n mod 10)]" by (subst show_nat.simps) simp
    then show ?thesis using 1[OF False] digit_char_digit[of "n mod 10"] by simp
  qed
qed

lemma length_show_nat: "n < 10 ^ Suc k \<Longrightarrow> length (show_nat n) \<le> Suc k"
proof (induction k arbitrary: n)
  case 0
  then show ?case by (simp add: show_nat.simps)
next
  case (Suc k)
  show ?case
  proof (cases "n < 10")
    case True
    then show ?thesis by (simp add: show_nat.simps)
  next
    case False
    from Suc.prems have "n div 10 < 10 ^ Suc k" by simp
    then have "length (show_nat (n div 10)) \<le> Suc k" by (rule Suc.IH)
    moreover have "show_nat n = show_nat (n div 10) @ [digit_char (n mod 10)]"
      using False by (subst show_nat.simps) simp
    ultimately show ?thesis by simp
  qed
qed

lemma zfill_digits:
  assumes "length s \<le> w" "set s \<subseteq> set ''0123456789''"
  shows "length (zfill w s) = w \<and> set (zfill w s) \<subseteq> set ''0123456789''"
proof -
  have "length (zfill w s) = w" using assms(1) by (simp add: zfill_def)
  moreover have "set (zfill w s) \<subseteq> set ''0123456789''"
    using assms(2) by (auto simp: zfill_def)
  ultimately show ?thesis by simp
qed

lemma iso_example:
  "iso_to_datetime ''2023-07-04T10:15:00''
     = Inr (Some \<lparr> year = 2023, month = 7, day = 4, hour = 10, minute = 15, second = 0 \<rparr>)"
  by (simp add: iso_to_datetime_def nat_strings_def iso_fields_def read_nat_def digit_val_def days_in_month_def)

lemma iso_evening:
  "iso_to_datetime ''2023-07-04T18:30:00''
     = Inr (Some \<lparr> year = 2023, month = 7, day = 4, hour = 18, minute = 30, second = 0 \<rparr>)"
  by (simp add: iso_to_datetime_def nat_strings_def iso_fields_def read_nat_def digit_val_def days_in_month_def)

lemma iso_bad: "iso_to_datetime ''not a date'' = Inl ValueError"
  by (simp add: iso_to_datetime_def nat_strings_def iso_fields_def)

lemma iso_blank: "iso_to_datetime [] = Inr None"
  by (simp add: iso_to_datetime_def)

lemma iso_new_year:
  "iso_to_datetime ''1999-12-31 23:59:59''
     = Inr (Some \<lparr> year = 1999, month = 12, day = 31, hour = 23, minute = 59, second = 59 \<rparr>)"
  by (simp add: iso_to_datetime_def nat_strings_def iso_fields_def read_nat_def digit_val_def days_in_month_def)

lemma strf_new_year:
  "strftime_ymd \<lparr> year = 1999, month = 12, day = 31, hour = h, minute = mi, second = se \<rparr> = ''1999-12-31''"
  by (simp add: strftime_ymd_def zfill_def show_nat.simps digit_char_def)

lemma strf_4_july: "strftime_ymd \<lparr> year = 2023, month = 7, day = 4, hour = h, minute = mi, second = se \<rparr> = ''2023-07-04''"
  by (simp add: strftime_ymd_def zfill_def show_nat.simps digit_char_def)

lemma filename_of_archives:
  "filename_of ''../data/export/a.zip:sample.tsv'' = ''sample.tsv''"
  "filename_of ''../data/export/b.zip:sample.tsv'' = ''sample.tsv''"
  by (simp_all add: filename_of_def basename_def split_def)

lemma get_value_absent: "tbl column = None \<Longrightarrow> get_value to_float tbl column dflt = Inr dflt"
  by (simp add: get_value_def)

lemma tsv_record_dated:
  "tsv_record no_number tsv [''acq_local_datetime'' \<mapsto> [stamp]] 100
     = Inr \<lparr> filename = filename_of tsv, objects_per_ml = round_double (1 / 10), date = Some stamp,
             lat = None, lon = None \<rparr>"
proof -
  let ?t = "[''acq_local_datetime'' \<mapsto> [stamp]]"
  have g: "get_value no_number ?t ''acq_imaged_volume'' (Finite 1) = Inr (Finite 1)"
    "get_value no_number ?t ''sample_dilution_factor'' (Finite 1) = Inr (Finite 1)"
    "get_value no_number ?t ''sample_concentrated_sample_volume'' (Finite 1) = Inr (Finite 1)"
    "get_value no_number ?t ''sample_total_volume'' (Finite 1) = Inr (Finite 1)"
    by (simp_all add: get_value_absent)
  have c: "fmul (fmul (fdiv (count_to_float 100) (Finite 1)) (Finite 1)) (fdiv (Finite 1) (fmul (Finite 1) (Finite 1000)))
      = round_double (1 / 10)"
    by (simp add: count_to_float_def double_values double_fractions[simplified])
  show ?thesis by (simp only: tsv_record_unfold[OF g] c) (simp add: first_cell_def)
qed

lemma collect_twins:
  "collect no_number twin_loader (two_archives ''../data/export/'')
     = Inr [raw_row ''2023-07-04T10:15:00'', raw_row ''2023-07-04T18:30:00'']"
  by (simp add: two_archives_def twin_loader_def bind_err_def morning_table_def evening_table_def
        tsv_record_dated filename_of_archives raw_row_def)

lemma collect_bad:
  "collect no_number bad_loader (two_archives ''../data/export/'')
     = Inr [raw_row ''2023-07-04T10:15:00'', raw_row ''not a date'']"
  by (simp add: two_archives_def bad_loader_def bind_err_def morning_table_def undated_table_def
        tsv_record_dated filename_of_archives raw_row_def)

lemma collect_blank:
  "collect no_number blank_loader (two_archives ''../data/export/'')
     = Inr [raw_row ''2023-07-04T10:15:00'', raw_row []]"
  by (simp add: two_archives_def blank_loader_def bind_err_def morning_table_def blank_table_def
        tsv_record_dated filename_of_archives raw_row_def)

lemma create_df_blank:
  "create_df no_number (=) iso_to_datetime two_archives blank_loader ''../data/export/''
     = Inr [final_row, blank_final_row]"
proof -
  have ne: "''2023-07-04T10:15:00'' \<noteq> []" by simp
  show ?thesis
    unfolding create_df_unfold[where find_tsv_files = two_archives and path = "''../data/export/''", OF collect_blank]
    by (simp add: dedup_twins[OF ne] bind_err_def iso_example iso_blank with_date_def
          strf_4_july final_row_def blank_final_row_def raw_row_sel)
qed

lemma digit_val_digit_char: "digit_val (digit_char d) = Some (d mod 10)"
proof -
  have "k \<in> {0, 1, 2, 3, 4, 5, 6, 7, 8, 9}" if "k < 10" for k :: nat
    using that by auto
  then have "d mod 10 \<in> {0, 1, 2, 3, 4, 5, 6, 7, 8, 9}" by simp
  then show ?thesis unfolding digit_char_def digit_val_def by (elim insertE) simp_all
qed

lemma read_digits_snoc:
  "read_digits acc (s @ [c])
     = (case read_digits acc s of None \<Rightarrow> None
        | Some m \<Rightarrow> (case digit_val c of None \<Rightarrow> None | Some d \<Rightarrow> Some (10 * m + d)))"
  by (induction s arbitrary: acc) (auto split: option.splits)

lemma read_digits_show_nat: "read_digits 0 (show_nat n) = Some n"
proof (induction n rule: show_nat.induct)
  case (1 n)
  show ?case
  proof (cases "n < 10")
    case True
    then have "show_nat n = [digit_char n]" by (simp add: show_nat.simps)
    then show ?thesis using True by (simp add: digit_val_digit_char)
  next
    case False
    then have "show_nat n = show_nat (n div 10) @ [digit_char (n mod 10)]" by (subst show_nat.simps) simp
    then show ?thesis using 1[OF False] by (simp add: read_digits_snoc digit_val_digit_char)
  qed
qed

lemma read_digits_zeros: "read_digits 0 (replicate k (CHR ''0'') @ s) = read_digits 0 s"
  by (induction k) (simp_all add: digit_val_def)

lemma show_nat_nonempty: "show_nat n \<noteq> []"
  by (subst show_nat.simps) simp

lemma read_nat_zfill: "read_nat (zfill w (show_nat n)) = Some n"
  by (simp add: read_nat_def zfill_def show_nat_nonempty read_digits_zeros read_digits_show_nat)

lemma strftime_ymd_reads_back:
  assumes "year t < 10000" "month t < 100" "day t < 100"
  shows "\<exists>a b c. strftime_ymd t = a @ ''-'' @ b @ ''-'' @ c \<and> length a = 4 \<and> length b = 2 \<and> length c = 2
           \<and> read_nat a = Some (year t) \<and> read_nat b = Some (month t) \<and> read_nat c = Some (day t)"
proof -
  have "year t < 10 ^ Suc 3" "month t < 10 ^ Suc 1" "day t < 10 ^ Suc 1" using assms by simp_all
  then have l: "length (show_nat (year t)) \<le> 4" "length (show_nat (month t)) \<le> 2" "length (show_nat (day t)) \<le> 2"
    using length_show_nat[of "year t" 3] length_show_nat[of "month t" 1] length_show_nat[of "day t" 1]
    by simp_all
  note a = zfill_digits[OF l(1) show_nat_digits]
  note b = zfill_digits[OF l(2) show_nat_digits]
  note c = zfill_digits[OF l(3) show_nat_digits]
  have "strftime_ymd t = zfill 4 (show_nat (year t)) @ ''-'' @ zfill 2 (show_nat (month t)) @ ''-''
          @ zfill 2 (show_nat (day t))"
    by (simp add: strftime_ymd_def)
  then show ?thesis using a b c read_nat_zfill by blast
qed

lemma create_df_twins:
  "create_df no_number (=) iso_to_datetime two_archives twin_loader ''../data/export/''
     = Inr [final_row, final_row]"
proof -
  have ne: "''2023-07-04T10:15:00'' \<noteq> ''2023-07-04T18:30:00''" by simp
  show ?thesis
    unfolding create_df_unfold[where find_tsv_files = two_archives and path = "''../data/export/''", OF collect_twins]
    by (simp add: dedup_twins[OF ne] bind_err_def iso_example iso_evening with_date_def
          strf_4_july final_row_def raw_row_sel)
qed

lemma create_df_bad:
  "create_df no_number (=) iso_to_datetime two_archives bad_loader ''../data/export/'' = Inl ValueError"
proof -
  have ne: "''2023-07-04T10:15:00'' \<noteq> ''not a date''" by simp
  show ?thesis
    unfolding create_df_unfold[where find_tsv_files = two_archives and path = "''../data/export/''", OF collect_bad]
    by (simp add: dedup_twins[OF ne] bind_err_def iso_example iso_bad raw_row_sel)
qed

text \<open>
  Claim C5, as stated, fails for a date that is present and that the parser reads as a
  missing value. The second archive's table has an empty text in its first row of
  \<open>acq_local_datetime\<close>: the record's date is present (the column exists and has a row),
  it is no date, the parser gives \<open>NaT\<close> for it without an exception, and the assembler
  returns a frame in which the date of that record is absent.
\<close>

theorem silent_missing_date_counterexample:
  "create_df no_number (=) iso_to_datetime two_archives blank_loader ''../data/export/''
     = Inr [final_row, blank_final_row]"
  by (rule create_df_blank)

text \<open>
  Claim C5, amended. Let the sources be collected. If the parser returns on every date
  present after the deletion of duplicates, the assembler returns. In the frame it returns,
  a date that is present and parses to a timestamp is the text \<open>strftime('%Y-%m-%d')\<close> of
  that timestamp: four digits, two digits and two digits that read back as its year, month
  and day (for a year below 10000); a present date that the parser reads as missing, and an
  absent date, are absent. If the parser raises on some present date, the assembler raises.
  \<open>2023-07-04T10:15:00\<close> becomes \<open>2023-07-04\<close>, \<open>1999-12-31 23:59:59\<close> becomes
  \<open>1999-12-31\<close>.
\<close>

theorem date_normalization:
  assumes "collect to_float load_dataframe (find_tsv_files path) = Inr collected"
  shows "((\<forall>r c. r \<in> set (delete_duplicates ceq collected) \<and> date r = Some c \<longrightarrow> (\<exists>t. to_datetime c = Inr t))
            \<longrightarrow> (\<exists>d. create_df to_float ceq to_datetime find_tsv_files load_dataframe path = Inr d))
       \<and> (create_df to_float ceq to_datetime find_tsv_files load_dataframe path = Inr d
            \<longrightarrow> length d = length (delete_duplicates ceq collected)
              \<and> (\<forall>i c t. i < length d \<and> date (delete_duplicates ceq collected ! i) = Some c
                     \<and> to_datetime c = Inr (Some t)
                   \<longrightarrow> date (d ! i) = Some (strftime_ymd t))
              \<and> (\<forall>i c. i < length d \<and> date (delete_duplicates ceq collected ! i) = Some c
                     \<and> to_datetime c = Inr None
                   \<longrightarrow> date (d ! i) = None)
              \<and> (\<forall>i. i < length d \<and> date (delete_duplicates ceq collected ! i) = None
                   \<longrightarrow> date (d ! i) = None))
       \<and> ((\<exists>r c e. r \<in> set (delete_duplicates ceq collected) \<and> date r = Some c \<and> to_datetime c = Inl e)
            \<longrightarrow> (\<exists>e. create_df to_float ceq to_datetime find_tsv_files load_dataframe path = Inl e))
       \<and> (year t < 10000 \<and> month t < 100 \<and> day t < 100
            \<longrightarrow> (\<exists>a b c. strftime_ymd t = a @ ''-'' @ b @ ''-'' @ c \<and> length a = 4 \<and> length b = 2
                    \<and> length c = 2 \<and> read_nat a = Some (year t) \<and> read_nat b = Some (month t)
                    \<and> read_nat c = Some (day t)))
       \<and> map_sum id (map_option strftime_ymd) (iso_to_datetime ''2023-07-04T10:15:00'')
            = Inr (Some ''2023-07-04'')
       \<and> map_sum id (map_option strftime_ymd) (iso_to_datetime ''1999-12-31 23:59:59'')
            = Inr (Some ''1999-12-31'')"
proof (intro conjI impI)
  let ?rows = "delete_duplicates ceq collected"
  note unf = create_df_unfold[where find_tsv_files = find_tsv_files and path = path, OF assms]
  {
    assume a: "\<forall>r c. r \<in> set ?rows \<and> date r = Some c \<longrightarrow> (\<exists>t. to_datetime c = Inr t)"
    have "\<forall>c. Some c \<in> set (map date ?rows) \<longrightarrow> (\<exists>t. to_datetime c = Inr t)"
    proof (intro allI impI)
      fix c assume "Some c \<in> set (map date ?rows)"
      then obtain r where "r \<in> set ?rows" "date r = Some c" by auto
      with a show "\<exists>t. to_datetime c = Inr t" by blast
    qed
    then obtain ts where "to_datetime_column to_datetime (map date ?rows) = Inr ts"
      using to_datetime_column_returns by blast
    then show "\<exists>d. create_df to_float ceq to_datetime find_tsv_files load_dataframe path = Inr d"
      unfolding unf by (simp add: bind_err_def)
  }
  {
    assume d: "create_df to_float ceq to_datetime find_tsv_files load_dataframe path = Inr d"
    then obtain stamps where
      s: "to_datetime_column to_datetime (map date ?rows) = Inr stamps"
      and dd: "d = map2 with_date ?rows stamps"
      unfolding unf by (auto simp: bind_err_def split: sum.splits)
    note col = to_datetime_column_Inr[OF s]
    from col have len: "length stamps = length ?rows" by simp
    with dd show "length d = length ?rows" by simp
    show "\<forall>i c t. i < length d \<and> date (?rows ! i) = Some c \<and> to_datetime c = Inr (Some t)
            \<longrightarrow> date (d ! i) = Some (strftime_ymd t)"
    proof (intro allI impI)
      fix i c t
      assume h: "i < length d \<and> date (?rows ! i) = Some c \<and> to_datetime c = Inr (Some t)"
      then have i: "i < length ?rows" using dd len by simp
      then have "map date ?rows ! i = Some c" using h by simp
      then have "to_datetime c = Inr (stamps ! i)" using col i by simp
      with h have "stamps ! i = Some t" by simp
      then show "date (d ! i) = Some (strftime_ymd t)"
        using dd i len by (simp add: with_date_def)
    qed
    show "\<forall>i c. i < length d \<and> date (?rows ! i) = Some c \<and> to_datetime c = Inr None
            \<longrightarrow> date (d ! i) = None"
    proof (intro allI impI)
      fix i c
      assume h: "i < length d \<and> date (?rows ! i) = Some c \<and> to_datetime c = Inr None"
      then have i: "i < length ?rows" using dd len by simp
      then have "map date ?rows ! i = Some c" using h by simp
      then have "to_datetime c = Inr (stamps ! i)" using col i by simp
      with h have "stamps ! i = None" by simp
      then show "date (d ! i) = None"
        using dd i len by (simp add: with_date_def)
    qed
    show "\<forall>i. i < length d \<and> date (?rows ! i) = None \<longrightarrow> date (d ! i) = None"
    proof (intro allI impI)
      fix i
      assume h: "i < length d \<and> date (?rows ! i) = None"
      then have i: "i < length ?rows" using dd len by simp
      then have "map date ?rows ! i = None" using h by simp
      then have "stamps ! i = None" using col i by simp
      then show "date (d ! i) = None"
        using dd i len by (simp add: with_date_def)
    qed
  }
  {
    assume "\<exists>r c e. r \<in> set ?rows \<and> date r = Some c \<and> to_datetime c = Inl e"
    then obtain r c e where r: "r \<in> set ?rows" "date r = Some c" "to_datetime c = Inl e" by blast
    then have "Some c \<in> set (map date ?rows)" by force
    then obtain e' where "to_datetime_column to_datetime (map date ?rows) = Inl e'"
      using to_datetime_column_fails[of c "map date ?rows" to_datetime e] r(3) by blast
    then show "\<exists>e. create_df to_float ceq to_datetime find_tsv_files load_dataframe path = Inl e"
      unfolding unf by (simp add: bind_err_def)
  }
  {
    assume "year t < 10000 \<and> month t < 100 \<and> day t < 100"
    then show "\<exists>a b c. strftime_ymd t = a @ ''-'' @ b @ ''-'' @ c \<and> length a = 4 \<and> length b = 2
                    \<and> length c = 2 \<and> read_nat a = Some (year t) \<and> read_nat b = Some (month t)
                    \<and> read_nat c = Some (day t)"
      using strftime_ymd_reads_back[of t] by blast
  }
  show "map_sum id (map_option strftime_ymd) (iso_to_datetime ''2023-07-04T10:15:00'') = Inr (Some ''2023-07-04'')"
    by (simp add: iso_example strf_4_july)
  show "map_sum id (map_option strftime_ymd) (iso_to_datetime ''1999-12-31 23:59:59'') = Inr (Some ''1999-12-31'')"
    by (simp add: iso_new_year strf_new_year)
qed

theorem date_normalization_witness:
  "create_df no_number (=) iso_to_datetime two_archives twin_loader ''../data/export/'' = Inr [final_row, final_row]
   \<and> date ([final_row, final_row] ! 0) = Some ''2023-07-04''
   \<and> date ([final_row, blank_final_row] ! 1) = None
   \<and> (\<exists>e. create_df no_number (=) iso_to_datetime two_archives bad_loader ''../data/export/'' = Inl e)
   \<and> (\<exists>a b c. ''1999-12-31'' = a @ ''-'' @ b @ ''-'' @ c \<and> length a = 4 \<and> length b = 2 \<and> length c = 2
         \<and> read_nat a = Some 1999 \<and> read_nat b = Some 12 \<and> read_nat c = Some 31)"
proof -
  let ?t = "\<lparr> year = 2023, month = 7, day = 4, hour = 10, minute = 15, second = 0 \<rparr>"
  let ?u = "\<lparr> year = 1999, month = 12, day = 31, hour = 23, minute = 59, second = 59 \<rparr>"
  have ne: "''2023-07-04T10:15:00'' \<noteq> ''2023-07-04T18:30:00''" by simp
  have ne': "''2023-07-04T10:15:00'' \<noteq> ''not a date''" by simp
  have ne'': "''2023-07-04T10:15:00'' \<noteq> []" by simp
  note good = date_normalization[where find_tsv_files = two_archives and path = "''../data/export/''"
      and ceq = "(=)" and to_datetime = iso_to_datetime and d = "[final_row, final_row]" and t = ?t,
      OF collect_twins]
  note blank = date_normalization[where find_tsv_files = two_archives and path = "''../data/export/''"
      and ceq = "(=)" and to_datetime = iso_to_datetime and d = "[final_row, blank_final_row]" and t = ?u,
      OF collect_blank]
  note bad = date_normalization[where find_tsv_files = two_archives and path = "''../data/export/''"
      and ceq = "(=)" and to_datetime = iso_to_datetime and d = "[]" and t = ?t,
      OF collect_bad]
  have 1: "create_df no_number (=) iso_to_datetime two_archives twin_loader ''../data/export/''
        = Inr [final_row, final_row]" by (rule create_df_twins)
  from good 1 have "\<forall>i c t. i < length [final_row, final_row]
        \<and> date (delete_duplicates (=) [raw_row ''2023-07-04T10:15:00'', raw_row ''2023-07-04T18:30:00''] ! i) = Some c
        \<and> iso_to_datetime c = Inr (Some t)
      \<longrightarrow> date ([final_row, final_row] ! i) = Some (strftime_ymd t)" by blast
  then have "0 < length [final_row, final_row]
        \<and> date (delete_duplicates (=) [raw_row ''2023-07-04T10:15:00'', raw_row ''2023-07-04T18:30:00''] ! 0)
            = Some ''2023-07-04T10:15:00''
        \<and> iso_to_datetime ''2023-07-04T10:15:00'' = Inr (Some ?t)
      \<longrightarrow> date ([final_row, final_row] ! 0) = Some (strftime_ymd ?t)" by blast
  then have 2: "date ([final_row, final_row] ! 0) = Some ''2023-07-04''"
    by (simp add: dedup_twins[OF ne] raw_row_sel iso_example strf_4_july)
  have b1: "create_df no_number (=) iso_to_datetime two_archives blank_loader ''../data/export/''
        = Inr [final_row, blank_final_row]" by (rule create_df_blank)
  from blank b1 have "\<forall>i c. i < length [final_row, blank_final_row]
        \<and> date (delete_duplicates (=) [raw_row ''2023-07-04T10:15:00'', raw_row []] ! i) = Some c
        \<and> iso_to_datetime c = Inr None
      \<longrightarrow> date ([final_row, blank_final_row] ! i) = None" by blast
  then have "1 < length [final_row, blank_final_row]
        \<and> date (delete_duplicates (=) [raw_row ''2023-07-04T10:15:00'', raw_row []] ! 1) = Some []
        \<and> iso_to_datetime [] = Inr None
      \<longrightarrow> date ([final_row, blank_final_row] ! 1) = None" by blast
  then have 3: "date ([final_row, blank_final_row] ! 1) = None"
    by (simp add: dedup_twins[OF ne''] raw_row_sel iso_blank)
  have "raw_row ''not a date'' \<in> set (delete_duplicates (=) [raw_row ''2023-07-04T10:15:00'', raw_row ''not a date''])
      \<and> date (raw_row ''not a date'') = Some ''not a date'' \<and> iso_to_datetime ''not a date'' = Inl ValueError"
    by (simp add: dedup_twins[OF ne'] raw_row_sel iso_bad)
  with bad have 4: "\<exists>e. create_df no_number (=) iso_to_datetime two_archives bad_loader ''../data/export/'' = Inl e"
    by blast
  have "year ?u < 10000 \<and> month ?u < 100 \<and> day ?u < 100" by simp
  with blank have "\<exists>a b c. strftime_ymd ?u = a @ ''-'' @ b @ ''-'' @ c \<and> length a = 4 \<and> length b = 2
      \<and> length c = 2 \<and> read_nat a = Some (year ?u) \<and> read_nat b = Some (month ?u) \<and> read_nat c = Some (day ?u)"
    by blast
  then have 5: "\<exists>a b c. ''1999-12-31'' = a @ ''-'' @ b @ ''-'' @ c \<and> length a = 4 \<and> length b = 2 \<and> length c = 2
         \<and> read_nat a = Some 1999 \<and> read_nat b = Some 12 \<and> read_nat c = Some 31"
    by (simp only: strf_new_year timestamp.simps)
  from 1 2 3 4 5 show ?thesis by (intro conjI)
qed

text \<open>
  Claim C8, as stated, fails on the returned frame. Two archives hold a file of the same
  name with 100 objects each, acquired at 10:15 and at 18:30 of the same day. The raw
  dates differ, so both records survive the deletion of duplicates; the date column is
  normalised afterwards, and the two returned rows are equal in all five fields.
\<close>

theorem final_dataset_duplicates_counterexample:
  "create_df no_number (=) iso_to_datetime two_archives twin_loader ''../data/export/''
     = Inr [final_row, final_row]"
  by (rule create_df_twins)

text \<open>
  Claim C8, amended. In the list of records after the deletion of duplicates (before the
  dates are normalised) no record equals (\<open>==\<close>) an earlier one, and with a symmetric
  comparison of cells no two records at distinct positions are equal; two records whose
  concentrations differ are not equal and both are retained. The returned frame has one
  row for each of these records, in the same order, with only the date replaced.
\<close>

theorem dedup_invariant:
  "(\<forall>i j. i < j \<and> j < length (delete_duplicates ceq xs)
        \<longrightarrow> \<not> dict_eq ceq (delete_duplicates ceq xs ! j) (delete_duplicates ceq xs ! i))
   \<and> ((\<forall>c d. ceq c d = ceq d c)
        \<longrightarrow> (\<forall>i j. i \<noteq> j \<and> i < length (delete_duplicates ceq xs) \<and> j < length (delete_duplicates ceq xs)
               \<longrightarrow> \<not> dict_eq ceq (delete_duplicates ceq xs ! i) (delete_duplicates ceq xs ! j)))
   \<and> (\<not> feq (objects_per_ml a) (objects_per_ml b)
        \<longrightarrow> \<not> dict_eq ceq a b \<and> delete_duplicates ceq [a, b] = [a, b])
   \<and> (create_df to_float ceq to_datetime find_tsv_files load_dataframe path = Inr d
        \<longrightarrow> (\<exists>collected stamps. collect to_float load_dataframe (find_tsv_files path) = Inr collected
               \<and> length stamps = length (delete_duplicates ceq collected)
               \<and> d = map2 with_date (delete_duplicates ceq collected) stamps))"
proof (intro conjI impI)
  let ?ys = "delete_duplicates ceq xs"
  have later: "\<not> dict_eq ceq (?ys ! j) (?ys ! i)" if "i < j" "j < length ?ys" for i j
    using delete_duplicates_sorted_wrt[of ceq xs] that by (simp add: sorted_wrt_iff_nth_less)
  show "\<forall>i j. i < j \<and> j < length ?ys \<longrightarrow> \<not> dict_eq ceq (?ys ! j) (?ys ! i)"
    using later by blast
  {
    assume sym: "\<forall>c d. ceq c d = ceq d c"
    show "\<forall>i j. i \<noteq> j \<and> i < length ?ys \<and> j < length ?ys \<longrightarrow> \<not> dict_eq ceq (?ys ! i) (?ys ! j)"
    proof (intro allI impI)
      fix i j assume h: "i \<noteq> j \<and> i < length ?ys \<and> j < length ?ys"
      show "\<not> dict_eq ceq (?ys ! i) (?ys ! j)"
      proof (cases "i < j")
        case True
        then have "\<not> dict_eq ceq (?ys ! j) (?ys ! i)" using later h by blast
        then show ?thesis using dict_eq_sym[OF sym] by blast
      next
        case False
        then have "j < i" using h by simp
        then show ?thesis using later h by blast
      qed
    qed
  }
  {
    assume "\<not> feq (objects_per_ml a) (objects_per_ml b)"
    then show "\<not> dict_eq ceq a b" and "delete_duplicates ceq [a, b] = [a, b]"
      using delete_duplicates_pair_differ by blast+
  }
  {
    assume "create_df to_float ceq to_datetime find_tsv_files load_dataframe path = Inr d"
    from create_df_Inr[OF this]
    show "\<exists>collected stamps. collect to_float load_dataframe (find_tsv_files path) = Inr collected
               \<and> length stamps = length (delete_duplicates ceq collected)
               \<and> d = map2 with_date (delete_duplicates ceq collected) stamps"
      by blast
  }
qed

theorem dedup_invariant_witness:
  "\<not> dict_eq (=) ([denser_row ''2023-07-04T10:15:00'', raw_row ''2023-07-04T10:15:00''] ! 1)
        ([denser_row ''2023-07-04T10:15:00'', raw_row ''2023-07-04T10:15:00''] ! 0)
   \<and> \<not> dict_eq (=) ([denser_row ''2023-07-04T10:15:00'', raw_row ''2023-07-04T10:15:00''] ! 0)
        ([denser_row ''2023-07-04T10:15:00'', raw_row ''2023-07-04T10:15:00''] ! 1)
   \<and> delete_duplicates (=) [raw_row ''2023-07-04T10:15:00'', denser_row ''2023-07-04T10:15:00'']
        = [raw_row ''2023-07-04T10:15:00'', denser_row ''2023-07-04T10:15:00'']
   \<and> (\<exists>collected stamps. collect no_number twin_loader (two_archives ''../data/export/'') = Inr collected
         \<and> length stamps = length (delete_duplicates (=) collected)
         \<and> [final_row, final_row] = map2 with_date (delete_duplicates (=) collected) stamps)"
proof -
  let ?a = "raw_row ''2023-07-04T10:15:00''" and ?b = "denser_row ''2023-07-04T10:15:00''"
  have d: "delete_duplicates (=) [?a, ?b, ?a] = [?b, ?a]"
    by (simp add: delete_duplicates_Cons delete_duplicates_Nil py_in_def dict_eq_denser dict_eq_raw_row)
  have nf: "\<not> feq (objects_per_ml ?a) (objects_per_ml ?b)"
    by (simp add: feq_def raw_row_def denser_row_def double_fractions)
  have sym: "\<forall>c d::string. (c = d) = (d = c)" by auto
  have cd: "create_df no_number (=) iso_to_datetime two_archives twin_loader ''../data/export/''
      = Inr [final_row, final_row]" by (rule create_df_twins)
  note t = dedup_invariant[of "(=)" "[?a, ?b, ?a]" ?a ?b no_number iso_to_datetime two_archives
      twin_loader "''../data/export/''" "[final_row, final_row]"]
  from t have "\<forall>i j. i < j \<and> j < length (delete_duplicates (=) [?a, ?b, ?a])
      \<longrightarrow> \<not> dict_eq (=) (delete_duplicates (=) [?a, ?b, ?a] ! j) (delete_duplicates (=) [?a, ?b, ?a] ! i)"
    by (elim conjE)
  then have "(0::nat) < 1 \<and> 1 < length (delete_duplicates (=) [?a, ?b, ?a])
      \<longrightarrow> \<not> dict_eq (=) (delete_duplicates (=) [?a, ?b, ?a] ! 1) (delete_duplicates (=) [?a, ?b, ?a] ! 0)"
    by blast
  then have 1: "\<not> dict_eq (=) ([?b, ?a] ! 1) ([?b, ?a] ! 0)" unfolding d by simp
  from t sym have "\<forall>i j. i \<noteq> j \<and> i < length (delete_duplicates (=) [?a, ?b, ?a])
        \<and> j < length (delete_duplicates (=) [?a, ?b, ?a])
      \<longrightarrow> \<not> dict_eq (=) (delete_duplicates (=) [?a, ?b, ?a] ! i) (delete_duplicates (=) [?a, ?b, ?a] ! j)"
    by (elim conjE) blast
  then have "(0::nat) \<noteq> 1 \<and> 0 < length (delete_duplicates (=) [?a, ?b, ?a])
        \<and> 1 < length (delete_duplicates (=) [?a, ?b, ?a])
      \<longrightarrow> \<not> dict_eq (=) (delete_duplicates (=) [?a, ?b, ?a] ! 0) (delete_duplicates (=) [?a, ?b, ?a] ! 1)"
    by blast
  then have 2: "\<not> dict_eq (=) ([?b, ?a] ! 0) ([?b, ?a] ! 1)" unfolding d by simp
  from t nf have 3: "delete_duplicates (=) [?a, ?b] = [?a, ?b]" by (elim conjE) blast
  from t cd have 4: "\<exists>collected stamps. collect no_number twin_loader (two_archives ''../data/export/'') = Inr collected
         \<and> length stamps = length (delete_duplicates (=) collected)
         \<and> [final_row, final_row] = map2 with_date (delete_duplicates (=) collected) stamps"
    by (elim conjE) blast
  from 1 2 3 4 show ?thesis by (intro conjI)
qed

section \<open>The selection callback\<close>

lemma select_point_keeps:
  "df (snd (select_point self clickData)) = df self
   \<and> publisher (snd (select_point self clickData)) = publisher self
   \<and> fig_customdata (fig (snd (select_point self clickData))) = fig_customdata (fig self)"
  by (simp add: select_point_def Let_def split: option.splits list.splits)

lemma reachable_consistent:
  "reachable self \<Longrightarrow>
     publisher self = ''visualization/dataset''
     \<and> fig_customdata (fig self) = map (\<lambda>r. [filename r]) (df self)"
proof (induction self rule: reachable.induct)
  case (start ctrl d)
  show ?case by (simp add: new_world_map_def create_world_map_fig_def)
next
  case (step self clickData)
  then show ?case using select_point_keeps[of self clickData] by simp
qed

text \<open>
  Claim C7. In every reachable object with a controller, a click on point \<open>i\<close> of the
  figure, \<open>i\<close> a valid index of the frame, appends exactly one message to the messages
  published: the topic \<open>visualization/dataset\<close> and the file name of record \<open>i\<close>. The
  object changes in its figure and its controller only; the frame is unchanged.
\<close>

theorem select_point_publishes_once:
  assumes "reachable self" and "controller self = Some published" and "i < length (df self)"
  shows "(\<exists>f. select_point self (click_on (fig self) i)
            = (Figure f, self \<lparr> fig := f,
                 controller := Some (published @ [(''visualization/dataset'', filename (df self ! i))]) \<rparr>))
       \<and> controller (snd (select_point self (click_on (fig self) i)))
            = Some (published @ [(''visualization/dataset'', filename (df self ! i))])
       \<and> df (snd (select_point self (click_on (fig self) i))) = df self"
proof -
  from reachable_consistent[OF assms(1)] have p: "publisher self = ''visualization/dataset''"
    and c: "fig_customdata (fig self) = map (\<lambda>r. [filename r]) (df self)" by simp_all
  from c assms(3) have cd: "fig_customdata (fig self) ! i = [filename (df self ! i)]" by simp
  let ?f = "(fig self) \<lparr> marker_opacity := map (\<lambda>k. if int k = int i then 1 else 1 / 2) [0 ..< length (df self)] \<rparr>"
  have eq: "select_point self (click_on (fig self) i)
      = (Figure ?f, self \<lparr> fig := ?f,
           controller := Some (published @ [(''visualization/dataset'', filename (df self ! i))]) \<rparr>)"
    by (simp add: select_point_def click_on_def cd assms(2) p Let_def)
  show ?thesis
  proof (intro conjI)
    show "\<exists>f. select_point self (click_on (fig self) i)
            = (Figure f, self \<lparr> fig := f,
                 controller := Some (published @ [(''visualization/dataset'', filename (df self ! i))]) \<rparr>)"
      using eq by blast
    show "controller (snd (select_point self (click_on (fig self) i)))
            = Some (published @ [(''visualization/dataset'', filename (df self ! i))])"
      by (simp add: eq)
    show "df (snd (select_point self (click_on (fig self) i))) = df self"
      by (simp add: eq)
  qed
qed

theorem select_point_publishes_once_witness:
  "controller (snd (select_point (new_world_map (Some []) [final_row, other_row])
       (click_on (fig (new_world_map (Some []) [final_row, other_row])) 1)))
     = Some [(''visualization/dataset'', ''other.tsv'')]
   \<and> df (snd (select_point (new_world_map (Some []) [final_row, other_row])
       (click_on (fig (new_world_map (Some []) [final_row, other_row])) 1)))
     = [final_row, other_row]"
proof -
  let ?s = "new_world_map (Some []) [final_row, other_row] :: string world_map"
  have r: "reachable ?s" by (rule reachable.start)
  have c: "controller ?s = Some []" by (simp add: new_world_map_def)
  have d: "df ?s = [final_row, other_row]" by (simp add: new_world_map_def)
  have i: "1 < length (df ?s)" by (simp add: d)
  note t = select_point_publishes_once[OF r c i]
  from t have "controller (snd (select_point ?s (click_on (fig ?s) 1)))
     = Some ([] @ [(''visualization/dataset'', filename (df ?s ! 1))])" by (elim conjE)
  moreover have "filename (df ?s ! 1) = ''other.tsv''" unfolding d by (simp add: other_row_def)
  ultimately have 1: "controller (snd (select_point ?s (click_on (fig ?s) 1)))
     = Some [(''visualization/dataset'', ''other.tsv'')]" by simp
  from t have "df (snd (select_point ?s (click_on (fig ?s) 1))) = df ?s" by (elim conjE)
  then have 2: "df (snd (select_point ?s (click_on (fig ?s) 1))) = [final_row, other_row]" by (simp add: d)
  from 1 2 show ?thesis by (intro conjI)
qed

text \<open>
  Claim C10. Without click data the callback returns \<open>no_update\<close> and leaves the object
  as it is: nothing is published, the figure (and its opacities) and the frame are
  unchanged.
\<close>

theorem select_point_no_click:
  "select_point self None = (No_update, self)"
  by (simp add: select_point_def)

end
